theory Spec2Isabelle
  imports Complex_Main "HOL-Library.AList"
begin

section \<open>Data model of src/api/main.py\<close>

text \<open>
  Python exceptions that the modelled code can raise or receive from a collaborator.
  \<open>Exception\<close> stands for any other subclass of Python's \<open>Exception\<close>, with its text.
\<close>

datatype exn = IndexError | AttributeError | KeyError | Exception string

text \<open>The pydantic model \<open>MessageInput\<close> (lines 56-64), field by field.\<close>

record MessageInput =
  mensagem :: string
  agent_id :: string
  debounce :: int
  session_id :: "string option"
  message_id :: "string option"
  cliente_id :: "string option"
  user_id :: string
  id_conta :: string

text \<open>
  An entry of \<open>agents_storage\<close>. Every stored dictionary is built by \<open>lifespan\<close> or
  \<open>create_agent\<close> and holds all of these keys.
\<close>

record skill =
  skill_name :: "string option"
  skill_description :: "string option"
  skill_context :: "string option"
  skill_keywords :: "string list"

record agent_config =
  cfg_id :: string
  cfg_name :: string
  cfg_description :: string
  cfg_instructions :: string
  cfg_model :: string
  cfg_temperature :: real
  cfg_max_tokens :: int
  cfg_skills :: "skill list"
  webhook_url :: string

text \<open>The dictionary returned by \<open>SimpleAgent.process\<close> and sent to the webhook.\<close>

record response =
  r_messages :: "string list"
  r_transferir :: bool
  r_session_id :: string
  r_user_id :: string
  r_agent_id :: string
  r_custom :: "(string \<times> string) list list"
  r_agent_usage :: "(string \<times> string) list"

text \<open>
  A value of \<open>debounce_storage\<close>: the accumulated messages and the handle of the armed
  task (\<open>None\<close> between lines 360 and 375). A task handle is the index of the task in
  the list of tasks the event loop has been given.
\<close>

record pending =
  messages :: "MessageInput list"
  task :: "nat option"

text \<open>
  Where a flush that has started can be suspended: inside one of the three awaited
  collaborators. The local variables of the suspended coroutine: the agent instance, the
  agent's id and configuration, the message being processed, the messages of the agent's
  group still to process and the agent groups still to process. A message is referred to
  by its position in the group's list, which stands for the reference to the object (a
  stored list only grows at its end).
\<close>

datatype await_point = AwaitContext string string | AwaitSave response | AwaitWebhook

record continuation =
  c_point :: await_point
  c_agent :: "(string list \<Rightarrow> string \<Rightarrow> string \<Rightarrow> string \<Rightarrow> exn + response) option"
  c_agent_id :: string
  c_agent_config :: agent_config
  c_msg :: nat
  c_messages :: "nat list"
  c_groups :: "(string \<times> nat list) list"

datatype task_status = Sleeping | Suspended continuation | Cancelled | Finished

record task_rec =
  task_key :: string
  task_delay :: real
  task_status :: task_status

text \<open>What the dispatcher logs with \<open>logger.error\<close>.\<close>

datatype log_error =
    AgentNotFound string
  | IndividualError exn
  | AgentGroupError string exn

text \<open>
  The observable effects of a dispatch, in the order the code performs them: the calls of
  \<open>get_cognee_context\<close>, \<open>agent.process\<close>, \<open>save_to_cognee\<close> and \<open>send_webhook\<close>
  with their arguments, and the error logs.
\<close>

datatype event =
    GetCogneeContext string string string
  | AgentProcess string "string list" string string string
  | SaveToCognee string string string string string
  | SendWebhook string response
  | LoggerError log_error

text \<open>
  The process-wide state: the two module-level dictionaries (insertion-ordered, as
  association lists), the tasks created with \<open>asyncio.create_task\<close>, the number of
  identifiers \<open>uuid.uuid4\<close> has handed out, and the effects so far.
\<close>

record state =
  debounce_storage :: "(string \<times> pending) list"
  agents_storage :: "(string \<times> agent_config) list"
  tasks :: "task_rec list"
  uuid_counter :: nat
  trace :: "event list"

text \<open>
  The collaborators outside the repository's dispatch code: \<open>uuid.uuid4\<close> (the n-th
  identifier it hands out) and the imported class \<open>SimpleAgent\<close> (\<open>None\<close> when the import
  at lines 49-53 failed). The class is its constructor, which may raise; an instance is its
  \<open>process\<close> method, taking \<open>messages\<close>, \<open>user_id\<close>, \<open>session_id\<close> and \<open>tenant_id\<close>.
\<close>

type_synonym agent_process = "string list \<Rightarrow> string \<Rightarrow> string \<Rightarrow> string \<Rightarrow> exn + response"

record env =
  uuid4 :: "nat \<Rightarrow> string"
  SimpleAgent :: "(agent_config \<Rightarrow> exn + agent_process) option"

section \<open>Batch key and grouping (receive_messages, lines 340-348)\<close>

text \<open>Python's \<open>x or default\<close> on an optional string: \<open>None\<close> and the empty string are falsy.\<close>

definition py_or :: "string option \<Rightarrow> string \<Rightarrow> string" where
  "py_or x d = (case x of None \<Rightarrow> d | Some s \<Rightarrow> if s = [] then d else s)"

text \<open>Line 344: \<open>f"{msg.agent_id}_{msg.user_id}_{msg.session_id or 'no_session'}"\<close>.\<close>

definition debounce_key :: "MessageInput \<Rightarrow> string" where
  "debounce_key msg =
     agent_id msg @ ''_'' @ user_id msg @ ''_'' @ py_or (session_id msg) ''no_session''"

text \<open>
  The grouping idiom of lines 346-348 and 164-166: create an empty list under a new key
  (at the end of the dictionary), then append the element to the key's list.
\<close>

definition group_add :: "('a \<Rightarrow> string) \<Rightarrow> (string \<times> 'a list) list \<Rightarrow> 'a \<Rightarrow> (string \<times> 'a list) list" where
  "group_add key_of groups x =
     (let k = key_of x;
          groups1 = (if map_of groups k = None then AList.update k [] groups else groups)
      in AList.map_entry k (\<lambda>xs. xs @ [x]) groups1)"

definition group_by :: "('a \<Rightarrow> string) \<Rightarrow> 'a list \<Rightarrow> (string \<times> 'a list) list" where
  "group_by key_of xs = foldl (group_add key_of) [] xs"

section \<open>Arming the flush (receive_messages, lines 351-375)\<close>

text \<open>
  \<open>task.cancel()\<close>: a task that has not finished is cancelled, asleep or suspended at an
  await (the \<open>CancelledError\<close> raised there is no \<open>Exception\<close> and passes every handler
  of the dispatch code).
\<close>

definition cancel :: "nat \<Rightarrow> task_rec list \<Rightarrow> task_rec list" where
  "cancel t ts =
     (if t < length ts
      then (case task_status (ts ! t) of
              Finished \<Rightarrow> ts
            | _ \<Rightarrow> ts[t := (ts ! t)\<lparr>task_status := Cancelled\<rparr>])
      else ts)"

text \<open>\<open>asyncio.create_task(delayed_process(key, delay))\<close>: the new handle and the new state.\<close>

definition create_task :: "string \<Rightarrow> real \<Rightarrow> state \<Rightarrow> nat \<times> state" where
  "create_task key delay st =
     (length (tasks st),
      st\<lparr>tasks := tasks st @ [\<lparr>task_key = key, task_delay = delay, task_status = Sleeping\<rparr>]\<rparr>)"

text \<open>
  Lines 353-363: cancel and extend an existing group, or create a new one. The result
  carries the exception, if any, and the state as the statements before it left it.
\<close>

definition store_group :: "string \<Rightarrow> MessageInput list \<Rightarrow> state \<Rightarrow> exn option \<times> state" where
  "store_group key group_messages st =
     (case map_of (debounce_storage st) key of
        Some p \<Rightarrow>
          (case task p of
             None \<Rightarrow> (Some AttributeError, st)
           | Some t \<Rightarrow>
               (None, st\<lparr>tasks := cancel t (tasks st),
                         debounce_storage :=
                           AList.update key (p\<lparr>messages := messages p @ group_messages\<rparr>)
                             (debounce_storage st)\<rparr>))
      | None \<Rightarrow>
          (None, st\<lparr>debounce_storage :=
                      AList.update key \<lparr>messages = group_messages, task = None\<rparr>
                        (debounce_storage st)\<rparr>))"

text \<open>
  Lines 366-375: the delay is \<open>group_messages[0].debounce / 1000.0\<close> seconds (the float
  division is taken as exact); the new task is recorded in the group.
\<close>

definition arm_group :: "string \<Rightarrow> MessageInput list \<Rightarrow> state \<Rightarrow> exn option \<times> state" where
  "arm_group key group_messages st =
     (case group_messages of
        [] \<Rightarrow> (Some IndexError, st)
      | m0 # _ \<Rightarrow>
          (let debounce_time = real_of_int (debounce m0) / 1000;
               (t, st1) = create_task key debounce_time st
           in (None, st1\<lparr>debounce_storage :=
                           AList.map_entry key (\<lambda>p. p\<lparr>task := Some t\<rparr>) (debounce_storage st1)\<rparr>)))"

definition debounce_group :: "state \<Rightarrow> string \<times> MessageInput list \<Rightarrow> exn option \<times> state" where
  "debounce_group st kg =
     (case store_group (fst kg) (snd kg) st of
        (Some e, st1) \<Rightarrow> (Some e, st1)
      | (None, st1) \<Rightarrow> arm_group (fst kg) (snd kg) st1)"

fun debounce_loop :: "state \<Rightarrow> (string \<times> MessageInput list) list \<Rightarrow> exn option \<times> state" where
  "debounce_loop st [] = (None, st)"
| "debounce_loop st (kg # rest) =
     (case debounce_group st kg of
        (Some e, st1) \<Rightarrow> (Some e, st1)
      | (None, st1) \<Rightarrow> debounce_loop st1 rest)"

text \<open>The HTTP outcomes of the endpoint: the accepted body, or an \<open>HTTPException\<close>.\<close>

record accepted =
  success :: bool
  received :: nat
  debounce_groups :: nat

datatype http_result = Ok accepted | HTTPException nat

definition receive_messages :: "MessageInput list \<Rightarrow> state \<Rightarrow> http_result \<times> state" where
  "receive_messages msgs st =
     (let groups = group_by debounce_key msgs
      in case debounce_loop st groups of
           (Some e, st1) \<Rightarrow> (HTTPException 500, st1)
         | (None, st1) \<Rightarrow>
             (Ok \<lparr>success = True, received = length msgs, debounce_groups = length groups\<rparr>, st1))"

section \<open>Authentication (lines 148-153 and the dependency at line 333)\<close>

record request =
  x_api_key :: "string option"
  body :: "MessageInput list"

text \<open>
  \<open>request.headers.get("X-API-Key")\<close> is the field \<open>x_api_key\<close>; the configured key is a
  parameter. \<open>not api_key\<close> holds for a missing and for an empty header.
\<close>

definition get_api_key_from_header :: "string \<Rightarrow> request \<Rightarrow> http_result + string" where
  "get_api_key_from_header API_KEY req =
     (case x_api_key req of
        None \<Rightarrow> Inl (HTTPException 401)
      | Some api_key \<Rightarrow>
          if api_key = [] \<or> api_key \<noteq> API_KEY then Inl (HTTPException 401) else Inr api_key)"

text \<open>
  \<open>POST /messages\<close>: the framework resolves the dependency first and calls the handler
  only when it returned.
\<close>

definition post_messages :: "string \<Rightarrow> request \<Rightarrow> state \<Rightarrow> http_result \<times> state" where
  "post_messages API_KEY req st =
     (case get_api_key_from_header API_KEY req of
        Inl e \<Rightarrow> (e, st)
      | Inr api_key \<Rightarrow> receive_messages (body req) st)"

section \<open>Dispatch (process_agent_messages, lines 181-244)\<close>

definition log_event :: "event \<Rightarrow> state \<Rightarrow> state" where
  "log_event e st = st\<lparr>trace := trace st @ [e]\<rparr>"

text \<open>
  Lines 202-203: a message without a session id is given a fresh one, in place. The
  result is the session id as the following statements read it, the message object
  after the assignment, and the state.
\<close>

definition ensure_session :: "env \<Rightarrow> MessageInput \<Rightarrow> state \<Rightarrow> string \<times> MessageInput \<times> state" where
  "ensure_session env msg st =
     (let fresh = (uuid4 env (uuid_counter st),
                   msg\<lparr>session_id := Some (uuid4 env (uuid_counter st))\<rparr>,
                   st\<lparr>uuid_counter := Suc (uuid_counter st)\<rparr>)
      in case session_id msg of
           None \<Rightarrow> fresh
         | Some s \<Rightarrow> if s = [] then fresh else (s, msg, st))"

text \<open>
  Lines 201-209, up to the await of \<open>get_cognee_context\<close> (which catches every
  \<open>Exception\<close> itself and whose result is not used): session id, tenant id, context.
\<close>

definition begin_message :: "env \<Rightarrow> MessageInput \<Rightarrow> state \<Rightarrow> string \<times> string \<times> MessageInput \<times> state" where
  "begin_message env msg st =
     (case ensure_session env msg st of
        (sid, msg1, st1) \<Rightarrow>
          (let tenant_id = ''tenant_'' @ id_conta msg1
           in (sid, tenant_id, msg1,
               log_event (GetCogneeContext tenant_id (user_id msg1) sid) st1)))"

text \<open>Lines 221-229: the reply when no agent class is available.\<close>

definition basic_response :: "string \<Rightarrow> MessageInput \<Rightarrow> string \<Rightarrow> response" where
  "basic_response aid msg sid =
     \<lparr>r_messages = [''Desculpe, o sistema est'' @ [CHR 0xC3, CHR 0xA1] @
                      '' temporariamente indispon'' @ [CHR 0xC3, CHR 0xAD] @ ''vel.''],
      r_transferir = False, r_session_id = sid, r_user_id = user_id msg, r_agent_id = aid,
      r_custom = [], r_agent_usage = []\<rparr>"

text \<open>
  Lines 212-232, up to the await of \<open>save_to_cognee\<close> (which catches every \<open>Exception\<close>
  itself): the agent is invoked, and \<open>response["messages"][0]\<close> is read. Either can raise.
\<close>

definition save_reply :: "MessageInput \<Rightarrow> string \<Rightarrow> string \<Rightarrow> response \<Rightarrow> state \<Rightarrow> (exn + response) \<times> state" where
  "save_reply msg sid tenant_id r st =
     (case r_messages r of
        [] \<Rightarrow> (Inl IndexError, st)
      | first # _ \<Rightarrow>
          (Inr r, log_event (SaveToCognee tenant_id (user_id msg) sid (mensagem msg) first) st))"

definition invoke_agent :: "agent_process option \<Rightarrow> string \<Rightarrow> MessageInput \<Rightarrow> string \<Rightarrow> string \<Rightarrow> state \<Rightarrow> (exn + response) \<times> state" where
  "invoke_agent agent aid msg sid tenant_id st =
     (case agent of
        Some process \<Rightarrow>
          (let st1 = log_event (AgentProcess aid [mensagem msg] (user_id msg) sid tenant_id) st
           in case process [mensagem msg] (user_id msg) sid tenant_id of
                Inl e \<Rightarrow> (Inl e, st1)
              | Inr r \<Rightarrow> save_reply msg sid tenant_id r st1)
      | None \<Rightarrow> save_reply msg sid tenant_id (basic_response aid msg sid) st)"

text \<open>Lines 235-236: \<open>send_webhook\<close> catches every \<open>Exception\<close> itself.\<close>

definition deliver :: "agent_config \<Rightarrow> response \<Rightarrow> state \<Rightarrow> state" where
  "deliver agent_config r st =
     (if webhook_url agent_config \<noteq> [] then log_event (SendWebhook (webhook_url agent_config) r) st
      else st)"

text \<open>
  The body of the \<open>try\<close> at lines 200-238 for one message: the exception it ends with, if
  any, the message object afterwards, and the state.
\<close>

definition process_message :: "env \<Rightarrow> agent_process option \<Rightarrow> string \<Rightarrow> agent_config \<Rightarrow> MessageInput \<Rightarrow> state \<Rightarrow> exn option \<times> MessageInput \<times> state" where
  "process_message env agent aid agent_config msg st =
     (case begin_message env msg st of
        (sid, tenant_id, msg1, st1) \<Rightarrow>
          (case invoke_agent agent aid msg1 sid tenant_id st1 of
             (Inl e, st2) \<Rightarrow> (Some e, msg1, st2)
           | (Inr r, st2) \<Rightarrow> (None, msg1, deliver agent_config r st2)))"

text \<open>
  The loop of lines 199-241: \<open>except Exception\<close> logs the failure of a message and the
  loop goes on with the next one. The result holds the message objects after the loop.
\<close>

fun process_each :: "env \<Rightarrow> agent_process option \<Rightarrow> string \<Rightarrow> agent_config \<Rightarrow> MessageInput list \<Rightarrow> state \<Rightarrow> MessageInput list \<times> state" where
  "process_each env agent aid agent_config [] st = ([], st)"
| "process_each env agent aid agent_config (msg # rest) st =
     (case process_message env agent aid agent_config msg st of
        (Some e, msg1, st1) \<Rightarrow>
          (case process_each env agent aid agent_config rest (log_event (LoggerError (IndividualError e)) st1) of
             (rest1, st2) \<Rightarrow> (msg1 # rest1, st2))
      | (None, msg1, st1) \<Rightarrow>
          (case process_each env agent aid agent_config rest st1 of
             (rest1, st2) \<Rightarrow> (msg1 # rest1, st2)))"

text \<open>
  Lines 183-196 and 243-244: an unknown agent ends the function; a constructor that
  raises is caught by the outer handler; without the class the agent is \<open>None\<close>.
\<close>

definition process_agent_messages :: "env \<Rightarrow> string \<Rightarrow> MessageInput list \<Rightarrow> state \<Rightarrow> MessageInput list \<times> state" where
  "process_agent_messages env aid msgs st =
     (case map_of (agents_storage st) aid of
        None \<Rightarrow> (msgs, log_event (LoggerError (AgentNotFound aid)) st)
      | Some agent_config \<Rightarrow>
          (case SimpleAgent env of
             Some new_agent \<Rightarrow>
               (case new_agent agent_config of
                  Inl e \<Rightarrow> (msgs, log_event (LoggerError (AgentGroupError aid e)) st)
                | Inr agent \<Rightarrow> process_each env (Some agent) aid agent_config msgs st)
           | None \<Rightarrow> process_each env None aid agent_config msgs st))"

section \<open>Flush (process_message_batch, lines 156-179; delayed_process, lines 368-372)\<close>

text \<open>Lines 169-170: the agent groups in the order of the dictionary.\<close>

fun process_groups :: "env \<Rightarrow> (string \<times> MessageInput list) list \<Rightarrow> state \<Rightarrow> (string \<times> MessageInput list) list \<times> state" where
  "process_groups env [] st = ([], st)"
| "process_groups env (g # gs) st =
     (case process_agent_messages env (fst g) (snd g) st of
        (msgs1, st1) \<Rightarrow>
          (case process_groups env gs st1 of
             (gs1, st2) \<Rightarrow> ((fst g, msgs1) # gs1, st2)))"

text \<open>Lines 173-174: \<open>if batch_key in debounce_storage: del debounce_storage[batch_key]\<close>.\<close>

definition remove_group :: "string \<Rightarrow> state \<Rightarrow> state" where
  "remove_group batch_key st =
     (if map_of (debounce_storage st) batch_key \<noteq> None
      then st\<lparr>debounce_storage := AList.delete batch_key (debounce_storage st)\<rparr> else st)"

text \<open>
  \<open>process_message_batch\<close>: partition by agent id, process every group, then remove the
  key. No callee lets an \<open>Exception\<close> escape, so the handler of line 178 is not entered.
\<close>

definition process_message_batch :: "env \<Rightarrow> string \<Rightarrow> MessageInput list \<Rightarrow> state \<Rightarrow> state" where
  "process_message_batch env batch_key msgs st =
     (case process_groups env (group_by agent_id msgs) st of
        (gs1, st1) \<Rightarrow> remove_group batch_key st1)"

text \<open>
  \<open>delayed_process\<close> after its sleep, run without interruption: the group is read from
  the store, not removed, and handed to \<open>process_message_batch\<close>.
\<close>

definition delayed_process :: "env \<Rightarrow> string \<Rightarrow> state \<Rightarrow> state" where
  "delayed_process env key st =
     (case map_of (debounce_storage st) key of
        Some p \<Rightarrow> process_message_batch env key (messages p) st
      | None \<Rightarrow> st)"


section \<open>The agent (src/agents/simple_agent.py)\<close>

text \<open>
  What the LLM client is given and what it returns: an object that may have a \<open>content\<close>
  and a \<open>usage_metadata\<close> attribute, and its \<open>str()\<close>.
\<close>

datatype llm_message = SystemMessage string | HumanMessage string

record llm_response =
  content :: "string option"
  as_str :: string
  usage_metadata :: "(string \<times> string) list option"

text \<open>The values kept in \<open>AgentState.context\<close>: strings, and the list of matched skills.\<close>

datatype context_value = Text string | SkillContext "(string \<times> string \<times> string) list"

text \<open>The pydantic model \<open>AgentState\<close> (lines 20-31).\<close>

record AgentState =
  st_messages :: "string list"
  st_user_id :: string
  st_session_id :: string
  st_agent_id :: string
  st_tenant_id :: string
  st_context :: "(string \<times> context_value) list"
  st_skills_used :: "string list"
  st_transferir :: bool
  st_custom :: "(string \<times> string) list list"
  st_agent_usage :: "(string \<times> string) list"

text \<open>
  An instance of \<open>SimpleAgent\<close>: the attributes set by \<open>__init__\<close>, with the LLM client
  (\<open>self.llm\<close>, which may raise) and the compiled graph (\<open>self.graph\<close>, which may raise).
\<close>

record simple_agent =
  self_agent_id :: string
  self_name :: string
  self_instructions :: string
  self_model :: string
  self_skills :: "skill list"
  self_llm :: "llm_message list \<Rightarrow> exn + llm_response"
  self_graph :: "AgentState \<Rightarrow> exn + AgentState"

text \<open>Built-ins of the language the agent calls: \<open>str.lower\<close> and the clock.\<close>

record builtins =
  str_lower :: "string \<Rightarrow> string"
  now_isoformat :: string

text \<open>\<open>sub in s\<close> on strings.\<close>

definition contains :: "string \<Rightarrow> string \<Rightarrow> bool" where
  "contains s sub = list_ex (\<lambda>i. take (length sub) (drop i s) = sub) [0..<Suc (length s)]"

text \<open>\<open>d.get(key, default)\<close> on an optional entry.\<close>

definition get_or :: "'a option \<Rightarrow> 'a \<Rightarrow> 'a" where
  "get_or x d = (case x of None \<Rightarrow> d | Some v \<Rightarrow> v)"

text \<open>\<open>_process_message\<close> (lines 153-164).\<close>

definition node_process_message :: "builtins \<Rightarrow> simple_agent \<Rightarrow> AgentState \<Rightarrow> AgentState" where
  "node_process_message py self state =
     state\<lparr>st_context :=
       AList.update ''model'' (Text (self_model self))
         (AList.update ''timestamp'' (Text (now_isoformat py))
           (AList.update ''agent_name'' (Text (self_name self)) (st_context state)))\<rparr>"

text \<open>\<open>_apply_skills\<close> (lines 166-193).\<close>

definition relevant :: "builtins \<Rightarrow> string \<Rightarrow> skill \<Rightarrow> bool" where
  "relevant py message_lower sk =
     list_ex (\<lambda>keyword. contains message_lower (str_lower py keyword)) (skill_keywords sk)"

definition apply_skills :: "builtins \<Rightarrow> simple_agent \<Rightarrow> AgentState \<Rightarrow> AgentState" where
  "apply_skills py self state =
     (if self_skills self = [] then state
      else
        (let message = (case st_messages state of [] \<Rightarrow> [] | m # _ \<Rightarrow> m);
             message_lower = str_lower py message;
             relevant_skills = filter (relevant py message_lower) (self_skills self);
             state1 = state\<lparr>st_skills_used := st_skills_used state @
                        map (\<lambda>sk. get_or (skill_name sk) ''unknown'') relevant_skills\<rparr>
         in if relevant_skills = [] then state1
            else state1\<lparr>st_context :=
                   AList.update ''skills''
                     (SkillContext (map (\<lambda>sk. (get_or (skill_name sk) [],
                                               get_or (skill_description sk) [],
                                               get_or (skill_context sk) [])) relevant_skills))
                     (st_context state1)\<rparr>))"

text \<open>The system prompt of lines 202-208.\<close>

definition skill_lines :: "(string \<times> string \<times> string) \<Rightarrow> string" where
  "skill_lines sk =
     (case sk of (name, description, ctx) \<Rightarrow>
        ''- '' @ name @ '': '' @ description @ [CHR 0x0A] @
        (if ctx \<noteq> [] then ''  Contexto: '' @ ctx @ [CHR 0x0A] else []))"

definition system_prompt :: "simple_agent \<Rightarrow> AgentState \<Rightarrow> string" where
  "system_prompt self state =
     self_instructions self @
     (case map_of (st_context state) ''skills'' of
        Some (SkillContext sks) \<Rightarrow>
          if sks = [] then []
          else [CHR 0x0A, CHR 0x0A] @ ''Skills dispon'' @ [CHR 0xC3, CHR 0xAD] @ ''veis:'' @ [CHR 0x0A] @
               concat (map skill_lines sks)
      | _ \<Rightarrow> [])"

definition fallback_text :: string where
  "fallback_text = ''Desculpe, ocorreu um erro ao processar sua mensagem.''"

text \<open>
  \<open>_generate_response\<close> (lines 195-238): the LLM is given the system prompt and the first
  message; every \<open>Exception\<close> of the LLM call is caught and
  the state's messages become the fallback text.
\<close>

definition llm_input :: "simple_agent \<Rightarrow> AgentState \<Rightarrow> llm_message list" where
  "llm_input self state =
     (let user_message = (case st_messages state of [] \<Rightarrow> ''Ol'' @ [CHR 0xC3, CHR 0xA1] | m # _ \<Rightarrow> m)
      in [SystemMessage (system_prompt self state), HumanMessage user_message])"

definition generate_response :: "simple_agent \<Rightarrow> AgentState \<Rightarrow> AgentState" where
  "generate_response self state =
     (case self_llm self (llm_input self state) of
        Inl e \<Rightarrow> state\<lparr>st_messages := [fallback_text]\<rparr>
      | Inr response \<Rightarrow>
             (let response_text = (case content response of Some c \<Rightarrow> c | None \<Rightarrow> as_str response);
                  state1 = state\<lparr>st_messages := [response_text]\<rparr>
              in case usage_metadata response of
                   Some u \<Rightarrow> state1\<lparr>st_agent_usage := u\<rparr>
                 | None \<Rightarrow> state1))"

text \<open>
  \<open>_build_graph\<close> (lines 136-151): the three nodes in the order of the edges, from the
  entry point to \<open>END\<close>.
\<close>

definition build_graph :: "builtins \<Rightarrow> simple_agent \<Rightarrow> AgentState \<Rightarrow> exn + AgentState" where
  "build_graph py self state =
     Inr (generate_response self (apply_skills py self (node_process_message py self state)))"

text \<open>
  \<open>__init__\<close> (lines 36-51) on a stored configuration; \<open>_setup_llm\<close> is a parameter and
  may raise.
\<close>

definition new_simple_agent :: "builtins \<Rightarrow> (agent_config \<Rightarrow> exn + (llm_message list \<Rightarrow> exn + llm_response)) \<Rightarrow> agent_config \<Rightarrow> exn + simple_agent" where
  "new_simple_agent py setup_llm agent_config =
     (case setup_llm agent_config of
        Inl e \<Rightarrow> Inl e
      | Inr llm \<Rightarrow>
          (let self = \<lparr>self_agent_id = cfg_id agent_config, self_name = cfg_name agent_config,
                       self_instructions = cfg_instructions agent_config,
                       self_model = cfg_model agent_config, self_skills = cfg_skills agent_config,
                       self_llm = llm, self_graph = (\<lambda>state. Inl (Exception []))\<rparr>
           in Inr (self\<lparr>self_graph := build_graph py self\<rparr>)))"

text \<open>\<open>process\<close> (lines 240-278): the response of the graph, or the fallback response.\<close>

definition fallback_response :: "simple_agent \<Rightarrow> string \<Rightarrow> string \<Rightarrow> response" where
  "fallback_response self uid sid =
     \<lparr>r_messages = [fallback_text], r_transferir = False, r_session_id = sid, r_user_id = uid,
      r_agent_id = self_agent_id self, r_custom = [], r_agent_usage = []\<rparr>"

text \<open>Lines 244-250: the initial state, with the defaults of the other fields.\<close>

definition new_AgentState :: "simple_agent \<Rightarrow> string list \<Rightarrow> string \<Rightarrow> string \<Rightarrow> string \<Rightarrow> AgentState" where
  "new_AgentState self msgs uid sid tenant_id =
     \<lparr>st_messages = msgs, st_user_id = uid, st_session_id = sid,
      st_agent_id = self_agent_id self, st_tenant_id = tenant_id, st_context = [],
      st_skills_used = [], st_transferir = False, st_custom = [], st_agent_usage = []\<rparr>"

definition SimpleAgent_process :: "simple_agent \<Rightarrow> string list \<Rightarrow> string \<Rightarrow> string \<Rightarrow> string \<Rightarrow> exn + response" where
  "SimpleAgent_process self msgs uid sid tenant_id =
     (case self_graph self (new_AgentState self msgs uid sid tenant_id) of
           Inl e \<Rightarrow> Inr (fallback_response self uid sid)
         | Inr final_state \<Rightarrow>
             Inr \<lparr>r_messages = st_messages final_state, r_transferir = st_transferir final_state,
                  r_session_id = st_session_id final_state, r_user_id = st_user_id final_state,
                  r_agent_id = st_agent_id final_state, r_custom = st_custom final_state,
                  r_agent_usage = st_agent_usage final_state\<rparr>)"

text \<open>The class as the dispatcher sees it: the constructor, and \<open>process\<close> of the instance.\<close>

definition SimpleAgent_class :: "builtins \<Rightarrow> (agent_config \<Rightarrow> exn + (llm_message list \<Rightarrow> exn + llm_response)) \<Rightarrow> agent_config \<Rightarrow> exn + agent_process" where
  "SimpleAgent_class py setup_llm agent_config =
     (case new_simple_agent py setup_llm agent_config of
        Inl e \<Rightarrow> Inl e
      | Inr self \<Rightarrow> Inr (SimpleAgent_process self))"

section \<open>Sequential scheduling: a flush that runs without interruption\<close>

text \<open>
  The event loop resumes task \<open>t\<close> when its sleep has elapsed. A cancelled or finished
  task does nothing. Here the flush runs to its end before anything else happens.
\<close>

definition run_task :: "env \<Rightarrow> nat \<Rightarrow> state \<Rightarrow> state" where
  "run_task env t st =
     (if t < length (tasks st)
      then (case task_status (tasks st ! t) of
              Sleeping \<Rightarrow>
                (let st1 = delayed_process env (task_key (tasks st ! t)) st
                 in st1\<lparr>tasks := (tasks st1)[t := (tasks st1 ! t)\<lparr>task_status := Finished\<rparr>]\<rparr>)
            | _ \<Rightarrow> st)
      else st)"

section \<open>Interleaved scheduling: a flush that is suspended at its awaits\<close>

text \<open>
  \<open>delayed_process\<close> is a coroutine: between two awaits it runs without interruption,
  and at an await the event loop may run a request handler or another task. The awaits
  are \<open>asyncio.sleep\<close> and the calls of \<open>get_cognee_context\<close>, \<open>save_to_cognee\<close> and
  \<open>send_webhook\<close>. The functions below run one task from one await to the next.
\<close>

definition set_status :: "nat \<Rightarrow> task_status \<Rightarrow> state \<Rightarrow> state" where
  "set_status t s st = st\<lparr>tasks := (tasks st)[t := (tasks st ! t)\<lparr>task_status := s\<rparr>]\<rparr>"

text \<open>The message object at position \<open>i\<close> of the group stored under \<open>key\<close>.\<close>

definition stored_message :: "string \<Rightarrow> nat \<Rightarrow> state \<Rightarrow> MessageInput option" where
  "stored_message key i st =
     (case map_of (debounce_storage st) key of
        None \<Rightarrow> None
      | Some p \<Rightarrow> if i < length (messages p) then Some (messages p ! i) else None)"

definition assign_message :: "string \<Rightarrow> nat \<Rightarrow> MessageInput \<Rightarrow> state \<Rightarrow> state" where
  "assign_message key i msg st =
     st\<lparr>debounce_storage :=
          AList.map_entry key (\<lambda>p. p\<lparr>messages := (messages p)[i := msg]\<rparr>) (debounce_storage st)\<rparr>"

text \<open>
  Lines 201-209 for the message at position \<open>i\<close>: the session id is assigned in the
  object, and the task is suspended in \<open>get_cognee_context\<close>.
\<close>

definition start_message :: "env \<Rightarrow> nat \<Rightarrow> string \<Rightarrow> continuation \<Rightarrow> nat \<Rightarrow> nat list \<Rightarrow> state \<Rightarrow> state" where
  "start_message env t key c i rest st =
     (case stored_message key i st of
        None \<Rightarrow> st
      | Some msg \<Rightarrow>
          (case begin_message env msg st of
             (sid, tenant_id, msg1, st1) \<Rightarrow>
               set_status t
                 (Suspended (c\<lparr>c_point := AwaitContext sid tenant_id, c_msg := i, c_messages := rest\<rparr>))
                 (assign_message key i msg1 st1)))"

text \<open>
  Lines 169-170 and 183-199: the next agent group whose agent is known and can be
  constructed is entered at its first message; when no group is left, lines 173-174 remove
  the key and the task is finished.
\<close>

fun next_group :: "env \<Rightarrow> nat \<Rightarrow> string \<Rightarrow> (string \<times> nat list) list \<Rightarrow> state \<Rightarrow> state" where
  "next_group env t key [] st = set_status t Finished (remove_group key st)"
| "next_group env t key (g # gs) st =
     (case map_of (agents_storage st) (fst g) of
        None \<Rightarrow> next_group env t key gs (log_event (LoggerError (AgentNotFound (fst g))) st)
      | Some agent_config \<Rightarrow>
          (case (case SimpleAgent env of
                   None \<Rightarrow> Inr None
                 | Some new_agent \<Rightarrow>
                     (case new_agent agent_config of Inl e \<Rightarrow> Inl e | Inr a \<Rightarrow> Inr (Some a))) of
             Inl e \<Rightarrow> next_group env t key gs (log_event (LoggerError (AgentGroupError (fst g) e)) st)
           | Inr agent \<Rightarrow>
               (case snd g of
                  [] \<Rightarrow> next_group env t key gs st
                | i # rest \<Rightarrow>
                    start_message env t key
                      \<lparr>c_point = AwaitWebhook, c_agent = agent, c_agent_id = fst g,
                       c_agent_config = agent_config, c_msg = i, c_messages = rest, c_groups = gs\<rparr>
                      i rest st)))"

text \<open>The end of the loop body for one message: the next message, or the next group.\<close>

definition next_message :: "env \<Rightarrow> nat \<Rightarrow> string \<Rightarrow> continuation \<Rightarrow> state \<Rightarrow> state" where
  "next_message env t key c st =
     (case c_messages c of
        [] \<Rightarrow> next_group env t key (c_groups c) st
      | i # rest \<Rightarrow> start_message env t key c i rest st)"

text \<open>
  The sleep of task \<open>t\<close> has elapsed (lines 370-372 and 162-166): the group is read, not
  removed, and its messages are partitioned by agent id.
\<close>

definition wake :: "env \<Rightarrow> nat \<Rightarrow> state \<Rightarrow> state" where
  "wake env t st =
     (if t < length (tasks st)
      then (case task_status (tasks st ! t) of
              Sleeping \<Rightarrow>
                (let key = task_key (tasks st ! t)
                 in case map_of (debounce_storage st) key of
                      None \<Rightarrow> set_status t Finished st
                    | Some p \<Rightarrow>
                        next_group env t key
                          (group_by (\<lambda>i. agent_id (messages p ! i)) [0..<length (messages p)]) st)
            | _ \<Rightarrow> st)
      else st)"

text \<open>
  The collaborator that the suspended task \<open>t\<close> awaits has returned: the task runs to its
  next await. After the context: lines 212-232, up to \<open>save_to_cognee\<close>; an exception is
  logged and the loop goes on. After the save: lines 235-236. After the webhook: line 238.
\<close>

definition resume :: "env \<Rightarrow> nat \<Rightarrow> state \<Rightarrow> state" where
  "resume env t st =
     (if t < length (tasks st)
      then (case task_status (tasks st ! t) of
              Suspended c \<Rightarrow>
                (let key = task_key (tasks st ! t)
                 in case c_point c of
                      AwaitContext sid tenant_id \<Rightarrow>
                        (case stored_message key (c_msg c) st of
                           None \<Rightarrow> st
                         | Some msg \<Rightarrow>
                             (case invoke_agent (c_agent c) (c_agent_id c) msg sid tenant_id st of
                                (Inl e, st1) \<Rightarrow>
                                  next_message env t key c
                                    (log_event (LoggerError (IndividualError e)) st1)
                              | (Inr r, st1) \<Rightarrow>
                                  set_status t (Suspended (c\<lparr>c_point := AwaitSave r\<rparr>)) st1))
                    | AwaitSave r \<Rightarrow>
                        if webhook_url (c_agent_config c) \<noteq> []
                        then set_status t (Suspended (c\<lparr>c_point := AwaitWebhook\<rparr>))
                               (deliver (c_agent_config c) r st)
                        else next_message env t key c st
                    | AwaitWebhook \<Rightarrow> next_message env t key c st)
            | _ \<Rightarrow> st)
      else st)"

text \<open>What the event loop does next: handle a request, wake a task, resume a task.\<close>

datatype loop_event = Request "MessageInput list" | Wake nat | Resume nat

fun loop_step :: "env \<Rightarrow> state \<Rightarrow> loop_event \<Rightarrow> state" where
  "loop_step env st (Request msgs) = snd (receive_messages msgs st)"
| "loop_step env st (Wake t) = wake env t st"
| "loop_step env st (Resume t) = resume env t st"

definition run_loop :: "env \<Rightarrow> loop_event list \<Rightarrow> state \<Rightarrow> state" where
  "run_loop env evs st = foldl (loop_step env) st evs"

section \<open>Invariants of the store and closed forms\<close>

text \<open>Every stored group names a task that exists.\<close>

definition task_below :: "nat \<Rightarrow> nat option \<Rightarrow> bool" where
  "task_below n x = (case x of None \<Rightarrow> False | Some t \<Rightarrow> t < n)"

definition armed :: "state \<Rightarrow> bool" where
  "armed st = list_all (\<lambda>kp. task_below (length (tasks st)) (task (snd kp))) (debounce_storage st)"

text \<open>Every stored message sits under the key derived from it.\<close>

definition keyed :: "state \<Rightarrow> bool" where
  "keyed st =
     list_all (\<lambda>kp. list_all (\<lambda>m. debounce_key m = fst kp) (messages (snd kp)))
       (debounce_storage st)"

text \<open>The messages stored under a key (none when the key is absent).\<close>

definition stored_messages :: "state \<Rightarrow> string \<Rightarrow> MessageInput list" where
  "stored_messages st k =
     (case map_of (debounce_storage st) k of None \<Rightarrow> [] | Some p \<Rightarrow> messages p)"

text \<open>
  What \<open>debounce_group\<close> does to a state that satisfies \<open>armed\<close>, for a non-empty group,
  and its iteration over the groups of a request.
\<close>

definition arm_result :: "state \<Rightarrow> string \<Rightarrow> MessageInput list \<Rightarrow> state" where
  "arm_result st k ms =
     st\<lparr>tasks :=
          (case map_of (debounce_storage st) k of
             None \<Rightarrow> tasks st
           | Some p \<Rightarrow> (case task p of None \<Rightarrow> tasks st | Some t \<Rightarrow> cancel t (tasks st)))
          @ [\<lparr>task_key = k, task_delay = real_of_int (debounce (hd ms)) / 1000,
               task_status = Sleeping\<rparr>],
        debounce_storage :=
          AList.update k
            \<lparr>messages = stored_messages st k @ ms, task = Some (length (tasks st))\<rparr>
            (debounce_storage st)\<rparr>"

definition arm_all :: "state \<Rightarrow> (string \<times> MessageInput list) list \<Rightarrow> state" where
  "arm_all st gs = foldl (\<lambda>s g. arm_result s (fst g) (snd g)) st gs"

text \<open>Two states with the same dictionaries and tasks (the dispatch only adds effects).\<close>

definition same_store :: "state \<Rightarrow> state \<Rightarrow> bool" where
  "same_store st st' \<longleftrightarrow>
     debounce_storage st' = debounce_storage st \<and> tasks st' = tasks st \<and>
     agents_storage st' = agents_storage st"

text \<open>
  The state at start-up, with the agents \<open>lifespan\<close> finds or creates, and the states the
  process reaches from it when every flush runs without interruption: requests are
  handled, timers fire, and the agent endpoints change \<open>agents_storage\<close>.
\<close>

definition initial_state :: "(string \<times> agent_config) list \<Rightarrow> state" where
  "initial_state ags =
     \<lparr>debounce_storage = [], agents_storage = ags, tasks = [], uuid_counter = 0, trace = []\<rparr>"

inductive reachable :: "env \<Rightarrow> state \<Rightarrow> bool" for env :: env where
  start: "reachable env (initial_state ags)"
| request: "reachable env st \<Longrightarrow> reachable env (snd (receive_messages msgs st))"
| timer: "reachable env st \<Longrightarrow> reachable env (run_task env t st)"
| agents: "reachable env st \<Longrightarrow> reachable env (st\<lparr>agents_storage := ags\<rparr>)"

section \<open>Describing a dispatch\<close>

text \<open>
  The session id a message is processed with when \<open>uuid4\<close> has handed out \<open>c\<close>
  identifiers, its tenant id, and the number of identifiers handed out afterwards.
\<close>

definition session_of :: "env \<Rightarrow> nat \<Rightarrow> MessageInput \<Rightarrow> string" where
  "session_of env c msg = py_or (session_id msg) (uuid4 env c)"

definition tenant_of :: "MessageInput \<Rightarrow> string" where
  "tenant_of msg = ''tenant_'' @ id_conta msg"

definition next_counter :: "nat \<Rightarrow> MessageInput \<Rightarrow> nat" where
  "next_counter c msg = (if py_or (session_id msg) [] = [] then Suc c else c)"

text \<open>The agent invocations recorded in a trace: agent id, messages, user id.\<close>

fun agent_call :: "event \<Rightarrow> (string \<times> string list \<times> string) list" where
  "agent_call (AgentProcess aid msgs u sid tenant_id) = [(aid, msgs, u)]"
| "agent_call _ = []"

definition agent_calls :: "event list \<Rightarrow> (string \<times> string list \<times> string) list" where
  "agent_calls tr = concat (map agent_call tr)"

text \<open>
  The effects of one message that is processed without failure, with session id \<open>sid\<close>
  and the agent's reply \<open>r\<close>: context, agent, knowledge store, webhook if configured.
\<close>

definition dispatched :: "string \<Rightarrow> agent_config \<Rightarrow> MessageInput \<Rightarrow> string \<Rightarrow> response \<Rightarrow> event list" where
  "dispatched aid agent_config msg sid r =
     [GetCogneeContext (tenant_of msg) (user_id msg) sid,
      AgentProcess aid [mensagem msg] (user_id msg) sid (tenant_of msg),
      SaveToCognee (tenant_of msg) (user_id msg) sid (mensagem msg) (hd (r_messages r))] @
     (if webhook_url agent_config \<noteq> [] then [SendWebhook (webhook_url agent_config) r] else [])"



text \<open>The events \<open>evs\<close> are among those added from \<open>st\<close> to \<open>st'\<close>, next to each other.\<close>

definition emits :: "state \<Rightarrow> state \<Rightarrow> event list \<Rightarrow> bool" where
  "emits st st' evs \<longleftrightarrow> (\<exists>pre post. trace st' = trace st @ pre @ evs @ post)"

text \<open>No stored group is empty.\<close>

definition filled :: "state \<Rightarrow> bool" where
  "filled st = list_all (\<lambda>kp. messages (snd kp) \<noteq> []) (debounce_storage st)"

section \<open>Example inputs\<close>

text \<open>
  A message with the given agent, user, session, text and debounce interval; an agent
  configuration with the given id and webhook; an environment whose agent raises on the
  text \<open>boom\<close> and answers \<open>ok\<close> otherwise.
\<close>

definition example_message :: "string \<Rightarrow> string \<Rightarrow> string option \<Rightarrow> string \<Rightarrow> int \<Rightarrow> MessageInput" where
  "example_message a u s text d =
     \<lparr>mensagem = text, agent_id = a, debounce = d, session_id = s, message_id = None,
      cliente_id = Some [], user_id = u, id_conta = ''acme''\<rparr>"

definition example_agent :: "string \<Rightarrow> string \<Rightarrow> agent_config" where
  "example_agent a url =
     \<lparr>cfg_id = a, cfg_name = ''Assistente'', cfg_description = [], cfg_instructions = ''Responda.'',
      cfg_model = ''openai/gpt-4o-mini'', cfg_temperature = 7 / 10, cfg_max_tokens = 1000,
      cfg_skills = [], webhook_url = url\<rparr>"

definition example_reply :: "string \<Rightarrow> string \<Rightarrow> string \<Rightarrow> response" where
  "example_reply a u sid =
     \<lparr>r_messages = [''ok''], r_transferir = False, r_session_id = sid, r_user_id = u,
      r_agent_id = a, r_custom = [], r_agent_usage = []\<rparr>"

definition example_env :: env where
  "example_env =
     \<lparr>uuid4 = (\<lambda>n. ''uuid-'' @ replicate n (CHR ''i'')),
      SimpleAgent = Some (\<lambda>cfg. Inr (\<lambda>msgs u sid tenant.
        if msgs = [''boom''] then Inl (Exception ''LLM down'')
        else Inr (example_reply (cfg_id cfg) u sid)))\<rparr>"

text \<open>
  A store that holds one group (one message, armed with 3000 ms), and a request of two
  messages for the same key that ask for 1000 ms and 5000 ms.
\<close>

definition example_pending :: state where
  "example_pending =
     snd (receive_messages [example_message ''bot'' ''ana'' None ''um'' 3000] (initial_state []))"

definition example_rearm :: "MessageInput list" where
  "example_rearm =
     [example_message ''bot'' ''ana'' None ''dois'' 1000,
      example_message ''bot'' ''ana'' None ''tres'' 5000]"

text \<open>
  A store whose one group mixes two agents (their keys collide), both registered; and a
  store with one message for a registered agent.
\<close>

definition example_mixed :: state where
  "example_mixed =
     snd (receive_messages
       [example_message ''a_b'' ''c'' None ''A'' 1000,
        example_message ''a'' ''b_c'' None ''B'' 1000,
        example_message ''a_b'' ''c'' None ''C'' 1000]
       (initial_state [(''a_b'', example_agent ''a_b'' []), (''a'', example_agent ''a'' [])]))"

definition example_single :: state where
  "example_single =
     snd (receive_messages [example_message ''bot'' ''ana'' (Some ''s1'') ''oi'' 1000]
       (initial_state [(''bot'', example_agent ''bot'' ''http://hook'')]))"

text \<open>A store with one group of three messages; the agent raises on the second.\<close>

definition example_faulty :: state where
  "example_faulty =
     snd (receive_messages
       [example_message ''bot'' ''ana'' (Some ''s1'') ''um'' 1000,
        example_message ''bot'' ''ana'' (Some ''s1'') ''boom'' 1000,
        example_message ''bot'' ''ana'' (Some ''s1'') ''tres'' 1000]
       (initial_state [(''bot'', example_agent ''bot'' ''http://hook'')]))"

text \<open>Built-ins and an LLM client that raises on every call.\<close>

definition example_builtins :: builtins where
  "example_builtins = \<lparr>str_lower = (\<lambda>s. s), now_isoformat = ''2024-01-01T00:00:00''\<rparr>"

definition example_llm_down :: "agent_config \<Rightarrow> exn + (llm_message list \<Rightarrow> exn + llm_response)" where
  "example_llm_down agent_config = Inr (\<lambda>prompt. Inl (Exception ''timeout''))"

text \<open>
  One conversation, an agent with a webhook, two requests. The first flush has invoked the
  agent for the first message and awaits the webhook when the second request arrives; the
  flush armed by the second request then runs to its end.
\<close>

definition example_start :: state where
  "example_start = initial_state [(''bot'', example_agent ''bot'' ''http://hook'')]"

definition example_in_flight :: "loop_event list" where
  "example_in_flight =
     [Request [example_message ''bot'' ''ana'' (Some ''s1'') ''um'' 0],
      Wake 0, Resume 0, Resume 0]"

definition example_race :: "loop_event list" where
  "example_race =
     example_in_flight @
     [Request [example_message ''bot'' ''ana'' (Some ''s1'') ''dois'' 0],
      Resume 0,
      Wake 1, Resume 1, Resume 1, Resume 1, Resume 1, Resume 1, Resume 1]"

section \<open>Grouping: lemmas\<close>

lemma map_of_group_add:
  "map_of (group_add f gs x) k =
     (if k = f x then Some ((case map_of gs k of None \<Rightarrow> [] | Some ys \<Rightarrow> ys) @ [x])
      else map_of gs k)"
  by (simp add: group_add_def Let_def AList.map_of_map_entry AList.update_conv' split: option.split)

lemma map_of_foldl_group_add:
  "map_of (foldl (group_add f) gs xs) k =
     (if filter (\<lambda>x. f x = k) xs = [] then map_of gs k
      else Some ((case map_of gs k of None \<Rightarrow> [] | Some ys \<Rightarrow> ys) @ filter (\<lambda>x. f x = k) xs))"
proof (induction xs arbitrary: gs)
  case Nil
  then show ?case by simp
next
  case (Cons x xs)
  show ?case
    by (simp add: Cons.IH map_of_group_add split: option.split)
qed

lemma map_of_group_by:
  "map_of (group_by f xs) k =
     (if filter (\<lambda>x. f x = k) xs = [] then None else Some (filter (\<lambda>x. f x = k) xs))"
  by (simp add: group_by_def map_of_foldl_group_add)

lemma map_fst_map_entry: "map fst (AList.map_entry k g al) = map fst al"
  by (induction al) auto

lemma keys_group_add:
  "map fst (group_add f gs x) = (if f x \<in> set (map fst gs) then map fst gs else map fst gs @ [f x])"
  by (auto simp add: group_add_def Let_def map_fst_map_entry AList.update_keys map_of_eq_None_iff)

lemma distinct_foldl_group_add:
  "distinct (map fst gs) \<Longrightarrow> distinct (map fst (foldl (group_add f) gs xs))"
  by (induction xs arbitrary: gs) (simp_all add: keys_group_add)

lemma distinct_group_by: "distinct (map fst (group_by f xs))"
  by (simp add: group_by_def distinct_foldl_group_add)

lemma group_by_entry:
  "(k, ys) \<in> set (group_by f xs) \<Longrightarrow> ys = filter (\<lambda>x. f x = k) xs \<and> ys \<noteq> []"
proof -
  assume "(k, ys) \<in> set (group_by f xs)"
  then have "map_of (group_by f xs) k = Some ys"
    by (simp add: distinct_group_by)
  then show ?thesis
    by (simp add: map_of_group_by split: if_splits)
qed

section \<open>Arming: lemmas\<close>

lemma armedD:
  "armed st \<Longrightarrow> map_of (debounce_storage st) k = Some p \<Longrightarrow> \<exists>t. task p = Some t \<and> t < length (tasks st)"
  by (auto simp add: armed_def task_below_def list_all_iff dest!: map_of_SomeD split: option.splits)

lemma length_cancel [simp]: "length (cancel t ts) = length ts"
  by (simp add: cancel_def split: task_status.split)

lemma map_entry_update: "AList.map_entry k f (AList.update k v al) = AList.update k (f v) al"
  by (induction al) auto

lemma list_all_update:
  "P (k, v) \<Longrightarrow> list_all P al \<Longrightarrow> list_all P (AList.update k v al)"
  by (induction al) auto

lemma pending_update_all: "p\<lparr>messages := ms, task := t\<rparr> = \<lparr>messages = ms, task = t\<rparr>"
  by (cases p) simp

lemma debounce_group_armed:
  assumes "armed st" and "ms \<noteq> []"
  shows "debounce_group st (k, ms) = (None, arm_result st k ms)"
proof (cases "map_of (debounce_storage st) k")
  case None
  with assms(2) show ?thesis
    by (cases ms)
       (simp_all add: debounce_group_def store_group_def arm_group_def create_task_def
          arm_result_def stored_messages_def map_entry_update)
next
  case (Some p)
  with assms(1) obtain t where t: "task p = Some t" "t < length (tasks st)"
    using armedD by blast
  with Some assms(2) show ?thesis
    by (cases ms)
       (simp_all add: debounce_group_def store_group_def arm_group_def create_task_def
          arm_result_def stored_messages_def map_entry_update pending_update_all)
qed

lemma armed_arm_result:
  assumes "armed st"
  shows "armed (arm_result st k ms)"
proof -
  have len: "length (tasks (arm_result st k ms)) = Suc (length (tasks st))"
    by (simp add: arm_result_def stored_messages_def split: option.split)
  have "list_all (\<lambda>kp. task_below (Suc (length (tasks st))) (task (snd kp))) (debounce_storage st)"
    using assms by (auto simp add: armed_def task_below_def list_all_iff split: option.splits)
  then show ?thesis
    unfolding armed_def len
    by (simp add: arm_result_def stored_messages_def list_all_update task_below_def)
qed

lemma arm_all_Nil [simp]: "arm_all st [] = st"
  by (simp add: arm_all_def)

lemma arm_all_Cons [simp]: "arm_all st (g # gs) = arm_all (arm_result st (fst g) (snd g)) gs"
  by (simp add: arm_all_def)

lemma debounce_loop_armed:
  "armed st \<Longrightarrow> list_all (\<lambda>g. snd g \<noteq> []) gs \<Longrightarrow> debounce_loop st gs = (None, arm_all st gs)"
proof (induction gs arbitrary: st)
  case Nil
  then show ?case by simp
next
  case (Cons g gs)
  then have "debounce_group st g = (None, arm_result st (fst g) (snd g))"
    using debounce_group_armed [of st "snd g" "fst g"] by simp
  moreover have "armed (arm_result st (fst g) (snd g))"
    using Cons.prems(1) by (rule armed_arm_result)
  ultimately show ?case
    using Cons.IH Cons.prems(2) by simp
qed

lemma armed_arm_all: "armed st \<Longrightarrow> armed (arm_all st gs)"
  by (induction gs arbitrary: st) (simp_all add: armed_arm_result)




lemma frame_arm_result:
  "agents_storage (arm_result st k ms) = agents_storage st \<and>
   trace (arm_result st k ms) = trace st \<and>
   uuid_counter (arm_result st k ms) = uuid_counter st"
  by (simp add: arm_result_def)

lemma frame_arm_all:
  "agents_storage (arm_all st gs) = agents_storage st \<and>
   trace (arm_all st gs) = trace st \<and>
   uuid_counter (arm_all st gs) = uuid_counter st"
  by (induction gs arbitrary: st) (simp_all add: frame_arm_result)







lemma group_by_nonempty: "list_all (\<lambda>g. snd g \<noteq> []) (group_by f xs)"
  unfolding list_all_iff using group_by_entry [of _ _ f xs] by fastforce

lemma receive_messages_armed:
  assumes "armed st"
  shows "receive_messages msgs st =
     (Ok \<lparr>success = True, received = length msgs,
          debounce_groups = length (group_by debounce_key msgs)\<rparr>,
      arm_all st (group_by debounce_key msgs))"
  using assms
  by (simp add: receive_messages_def Let_def debounce_loop_armed group_by_nonempty)


lemma armed_receive: "armed st \<Longrightarrow> armed (snd (receive_messages msgs st))"
  by (simp add: receive_messages_armed armed_arm_all)

lemma keyed_arm_result:
  assumes "keyed st" and "list_all (\<lambda>m. debounce_key m = k) ms"
  shows "keyed (arm_result st k ms)"
proof -
  have "list_all (\<lambda>m. debounce_key m = k) (stored_messages st k)"
  proof (cases "map_of (debounce_storage st) k")
    case None
    then show ?thesis by (simp add: stored_messages_def)
  next
    case (Some p)
    then have "(k, p) \<in> set (debounce_storage st)" by (rule map_of_SomeD)
    with assms(1) have "list_all (\<lambda>m. debounce_key m = k) (messages p)"
      by (force simp add: keyed_def list_all_iff)
    with Some show ?thesis by (simp add: stored_messages_def)
  qed
  with assms show ?thesis
    by (simp add: keyed_def arm_result_def list_all_update)
qed

lemma keyed_arm_all:
  "keyed st \<Longrightarrow> list_all (\<lambda>g. list_all (\<lambda>m. debounce_key m = fst g) (snd g)) gs \<Longrightarrow>
   keyed (arm_all st gs)"
  by (induction gs arbitrary: st) (simp_all add: keyed_arm_result)

lemma group_by_keyed: "list_all (\<lambda>g. list_all (\<lambda>m. f m = fst g) (snd g)) (group_by f xs)"
  unfolding list_all_iff using group_by_entry [of _ _ f xs] by fastforce

lemma keyed_receive: "armed st \<Longrightarrow> keyed st \<Longrightarrow> keyed (snd (receive_messages msgs st))"
  by (simp add: receive_messages_armed keyed_arm_all group_by_keyed)



section \<open>Dispatch: what it leaves unchanged\<close>

lemma same_store_refl [simp]: "same_store st st"
  by (simp add: same_store_def)

lemma same_store_trans: "same_store a b \<Longrightarrow> same_store b c \<Longrightarrow> same_store a c"
  by (simp add: same_store_def)

lemma same_store_log_event [simp]: "same_store st (log_event e st)"
  by (simp add: same_store_def log_event_def)

lemma same_store_log_event' [simp]: "same_store st st' \<Longrightarrow> same_store st (log_event e st')"
  by (simp add: same_store_def log_event_def)

lemma same_store_ensure_session:
  "same_store st (snd (snd (ensure_session env msg st)))"
  by (simp add: ensure_session_def same_store_def Let_def split: option.split)

lemma same_store_begin_message:
  "same_store st (snd (snd (snd (begin_message env msg st))))"
  using same_store_ensure_session [of st env msg]
  by (auto simp add: begin_message_def Let_def split: prod.split)

lemma same_store_save_reply:
  "same_store st (snd (save_reply msg sid tenant_id r st))"
  by (simp add: save_reply_def split: list.split)

lemma same_store_invoke_agent:
  "same_store st (snd (invoke_agent agent aid msg sid tenant_id st))"
proof (cases agent)
  case None
  then show ?thesis by (simp add: invoke_agent_def same_store_save_reply)
next
  case (Some process)
  have "same_store (log_event (AgentProcess aid [mensagem msg] (user_id msg) sid tenant_id) st)
          (snd (save_reply msg sid tenant_id r
             (log_event (AgentProcess aid [mensagem msg] (user_id msg) sid tenant_id) st)))" for r
    by (rule same_store_save_reply)
  then have "same_store st (snd (save_reply msg sid tenant_id r
             (log_event (AgentProcess aid [mensagem msg] (user_id msg) sid tenant_id) st)))" for r
    by (rule same_store_trans [OF same_store_log_event])
  with Some show ?thesis
    by (simp add: invoke_agent_def Let_def split: sum.split)
qed

lemma same_store_deliver: "same_store st (deliver agent_config r st)"
  by (simp add: deliver_def)

lemma same_store_process_message:
  "same_store st (snd (snd (process_message env agent aid agent_config msg st)))"
proof -
  obtain sid tenant_id msg1 st1 where b: "begin_message env msg st = (sid, tenant_id, msg1, st1)"
    by (cases "begin_message env msg st") auto
  then have s1: "same_store st st1"
    using same_store_begin_message [of st env msg] by simp
  obtain res st2 where i: "invoke_agent agent aid msg1 sid tenant_id st1 = (res, st2)"
    by (cases "invoke_agent agent aid msg1 sid tenant_id st1") auto
  then have s2: "same_store st1 st2"
    using same_store_invoke_agent [of st1 agent aid msg1 sid tenant_id] by simp
  have s12: "same_store st st2" using s1 s2 by (rule same_store_trans)
  show ?thesis
  proof (cases res)
    case (Inl e)
    with b i s12 show ?thesis by (simp add: process_message_def)
  next
    case (Inr r)
    have "same_store st (deliver agent_config r st2)"
      using s12 same_store_deliver by (rule same_store_trans)
    with Inr b i show ?thesis by (simp add: process_message_def)
  qed
qed

lemma same_store_process_each:
  "same_store st (snd (process_each env agent aid agent_config msgs st))"
proof (induction msgs arbitrary: st)
  case Nil
  then show ?case by simp
next
  case (Cons msg rest)
  obtain e msg1 st1 where p: "process_message env agent aid agent_config msg st = (e, msg1, st1)"
    by (cases "process_message env agent aid agent_config msg st") auto
  then have s1: "same_store st st1"
    using same_store_process_message [of st env agent aid agent_config msg] by simp
  show ?case
  proof (cases e)
    case None
    have "same_store st (snd (process_each env agent aid agent_config rest st1))"
      using s1 Cons.IH by (rule same_store_trans)
    with None p show ?thesis by (auto split: prod.split)
  next
    case (Some x)
    have "same_store st (log_event (LoggerError (IndividualError x)) st1)"
      using s1 by simp
    then have "same_store st (snd (process_each env agent aid agent_config rest
        (log_event (LoggerError (IndividualError x)) st1)))"
      using Cons.IH by (rule same_store_trans)
    with Some p show ?thesis by (auto split: prod.split)
  qed
qed

lemma same_store_process_agent_messages:
  "same_store st (snd (process_agent_messages env aid msgs st))"
  by (simp add: process_agent_messages_def same_store_process_each split: option.split sum.split)

lemma same_store_process_groups:
  "same_store st (snd (process_groups env gs st))"
proof (induction gs arbitrary: st)
  case Nil
  then show ?case by simp
next
  case (Cons g gs)
  obtain msgs1 st1 where p: "process_agent_messages env (fst g) (snd g) st = (msgs1, st1)"
    by (cases "process_agent_messages env (fst g) (snd g) st") auto
  then have "same_store st st1"
    using same_store_process_agent_messages [of st env "fst g" "snd g"] by simp
  then have "same_store st (snd (process_groups env gs st1))"
    using Cons.IH by (rule same_store_trans)
  with p show ?case by (auto split: prod.split)
qed

section \<open>The invariants hold in every reachable state\<close>

lemma list_all_delete: "list_all P al \<Longrightarrow> list_all P (AList.delete k al)"
  by (simp add: AList.delete_eq list_all_iff)

lemma armed_remove_group: "armed st \<Longrightarrow> armed (remove_group k st)"
  by (simp add: remove_group_def armed_def list_all_delete)

lemma keyed_remove_group: "keyed st \<Longrightarrow> keyed (remove_group k st)"
  by (simp add: remove_group_def keyed_def list_all_delete)

lemma armed_same_store: "same_store st st' \<Longrightarrow> armed st \<Longrightarrow> armed st'"
  by (simp add: same_store_def armed_def)

lemma keyed_same_store: "same_store st st' \<Longrightarrow> keyed st \<Longrightarrow> keyed st'"
  by (simp add: same_store_def keyed_def)

lemma delayed_process_eq:
  "delayed_process env key st =
     (case map_of (debounce_storage st) key of
        None \<Rightarrow> st
      | Some p \<Rightarrow> remove_group key (snd (process_groups env (group_by agent_id (messages p)) st)))"
  by (simp add: delayed_process_def process_message_batch_def split: option.split prod.split)

lemma armed_delayed_process: "armed st \<Longrightarrow> armed (delayed_process env key st)"
proof (cases "map_of (debounce_storage st) key")
  case None
  assume "armed st"
  with None show ?thesis by (simp add: delayed_process_eq)
next
  case (Some p)
  assume "armed st"
  then have "armed (snd (process_groups env (group_by agent_id (messages p)) st))"
    using same_store_process_groups by (rule armed_same_store [rotated])
  then show ?thesis
    using Some by (simp add: delayed_process_eq armed_remove_group)
qed

lemma keyed_delayed_process: "keyed st \<Longrightarrow> keyed (delayed_process env key st)"
proof (cases "map_of (debounce_storage st) key")
  case None
  assume "keyed st"
  with None show ?thesis by (simp add: delayed_process_eq)
next
  case (Some p)
  assume "keyed st"
  then have "keyed (snd (process_groups env (group_by agent_id (messages p)) st))"
    using same_store_process_groups by (rule keyed_same_store [rotated])
  then show ?thesis
    using Some by (simp add: delayed_process_eq keyed_remove_group)
qed

lemma tasks_remove_group [simp]: "tasks (remove_group k st) = tasks st"
  by (simp add: remove_group_def)

lemma tasks_delayed_process: "tasks (delayed_process env key st) = tasks st"
  using same_store_process_groups [of st env]
  by (simp add: delayed_process_eq same_store_def split: option.split)

lemma armed_run_task: "armed st \<Longrightarrow> armed (run_task env t st)"
  using armed_delayed_process [of st env "task_key (tasks st ! t)"]
  by (simp add: run_task_def Let_def armed_def split: task_status.split)

lemma keyed_run_task: "keyed st \<Longrightarrow> keyed (run_task env t st)"
  using keyed_delayed_process [of st env "task_key (tasks st ! t)"]
  by (simp add: run_task_def Let_def keyed_def split: task_status.split)

lemma reachable_invariants: "reachable env st \<Longrightarrow> armed st \<and> keyed st"
proof (induction rule: reachable.induct)
  case (start ags)
  show ?case by (simp add: initial_state_def armed_def keyed_def)
next
  case (request st msgs)
  then show ?case by (simp add: armed_receive keyed_receive)
next
  case (timer st t)
  then show ?case by (simp add: armed_run_task keyed_run_task)
next
  case (agents st ags)
  then show ?case by (simp add: armed_def keyed_def)
qed

section \<open>Session placeholder\<close>




section \<open>Authentication\<close>

text \<open>
  Claim C10. A request to \<open>POST /messages\<close> whose \<open>X-API-Key\<close> header is missing or
  differs from the configured key is answered with status 401 and leaves the whole state
  as it was: no group is created or changed and no task is created.
\<close>

theorem unauthorized_request_rejected:
  assumes "x_api_key req = None \<or> x_api_key req \<noteq> Some API_KEY"
  shows "post_messages API_KEY req st = (HTTPException 401, st)"
  using assms
  by (auto simp add: post_messages_def get_api_key_from_header_def split: option.split)

theorem unauthorized_request_rejected_witness:
  "post_messages ''151fb361'' \<lparr>x_api_key = Some ''invalid-key'',
       body = [example_message ''bot'' ''ana'' None ''oi'' 1000]\<rparr> (initial_state []) =
     (HTTPException 401, initial_state []) \<and>
   post_messages ''151fb361'' \<lparr>x_api_key = None,
       body = [example_message ''bot'' ''ana'' None ''oi'' 1000]\<rparr> (initial_state []) =
     (HTTPException 401, initial_state [])"
  using unauthorized_request_rejected [of "\<lparr>x_api_key = Some ''invalid-key'',
       body = [example_message ''bot'' ''ana'' None ''oi'' 1000]\<rparr>" "''151fb361''" "initial_state []"]
    unauthorized_request_rejected [of "\<lparr>x_api_key = None,
       body = [example_message ''bot'' ''ana'' None ''oi'' 1000]\<rparr>" "''151fb361''" "initial_state []"]
  by simp

section \<open>Key isolation\<close>





section \<open>The delay of a re-armed flush\<close>




section \<open>Dispatch of one message: closed forms\<close>

lemma ensure_session_eq:
  "ensure_session env msg st =
     (session_of env (uuid_counter st) msg,
      msg\<lparr>session_id := Some (session_of env (uuid_counter st) msg)\<rparr>,
      st\<lparr>uuid_counter := next_counter (uuid_counter st) msg\<rparr>)"
  by (cases "session_id msg")
     (auto simp add: ensure_session_def session_of_def next_counter_def py_or_def Let_def)

lemma begin_message_eq:
  "begin_message env msg st =
     (session_of env (uuid_counter st) msg, tenant_of msg,
      msg\<lparr>session_id := Some (session_of env (uuid_counter st) msg)\<rparr>,
      st\<lparr>uuid_counter := next_counter (uuid_counter st) msg,
         trace := trace st @ [GetCogneeContext (tenant_of msg) (user_id msg)
                               (session_of env (uuid_counter st) msg)]\<rparr>)"
  by (simp add: begin_message_def ensure_session_eq tenant_of_def log_event_def Let_def)


lemma process_message_counter:
  "uuid_counter (snd (snd (process_message env agent aid agent_config msg st))) =
     next_counter (uuid_counter st) msg"
  by (auto simp add: process_message_def begin_message_eq invoke_agent_def save_reply_def
       deliver_def log_event_def Let_def split: prod.split sum.split option.split list.split)

lemma process_message_ok:
  assumes "process [mensagem msg] (user_id msg) (session_of env (uuid_counter st) msg) (tenant_of msg) = Inr r"
    and "r_messages r \<noteq> []"
  shows "process_message env (Some process) aid agent_config msg st =
     (None, msg\<lparr>session_id := Some (session_of env (uuid_counter st) msg)\<rparr>,
      st\<lparr>uuid_counter := next_counter (uuid_counter st) msg,
         trace := trace st @ dispatched aid agent_config msg (session_of env (uuid_counter st) msg) r\<rparr>)"
  using assms
  by (cases "r_messages r")
     (simp_all add: process_message_def begin_message_eq invoke_agent_def save_reply_def
       deliver_def log_event_def Let_def dispatched_def)

lemma process_message_raises:
  assumes "process [mensagem msg] (user_id msg) (session_of env (uuid_counter st) msg) (tenant_of msg) = Inl e"
  shows "process_message env (Some process) aid agent_config msg st =
     (Some e, msg\<lparr>session_id := Some (session_of env (uuid_counter st) msg)\<rparr>,
      st\<lparr>uuid_counter := next_counter (uuid_counter st) msg,
         trace := trace st @
           [GetCogneeContext (tenant_of msg) (user_id msg) (session_of env (uuid_counter st) msg),
            AgentProcess aid [mensagem msg] (user_id msg) (session_of env (uuid_counter st) msg) (tenant_of msg)]\<rparr>)"
  using assms
  by (simp add: process_message_def begin_message_eq invoke_agent_def log_event_def Let_def)

lemma process_message_trace:
  "\<exists>evs. trace (snd (snd (process_message env agent aid agent_config msg st))) = trace st @ evs"
  by (auto simp add: process_message_def begin_message_eq invoke_agent_def save_reply_def
       deliver_def log_event_def Let_def split: prod.split sum.split option.split list.split)

lemma process_each_trace:
  "\<exists>evs. trace (snd (process_each env agent aid agent_config msgs st)) = trace st @ evs"
proof (induction msgs arbitrary: st)
  case Nil
  then show ?case by simp
next
  case (Cons msg rest)
  obtain e msg1 st1 where p: "process_message env agent aid agent_config msg st = (e, msg1, st1)"
    by (cases "process_message env agent aid agent_config msg st") auto
  then obtain evs where evs: "trace st1 = trace st @ evs"
    using process_message_trace [of env agent aid agent_config msg st] by auto
  show ?case
  proof (cases e)
    case None
    from Cons.IH [of st1] obtain evs' where
      "trace (snd (process_each env agent aid agent_config rest st1)) = trace st1 @ evs'" by blast
    with None p evs show ?thesis by (auto split: prod.split)
  next
    case (Some x)
    from Cons.IH [of "log_event (LoggerError (IndividualError x)) st1"] obtain evs' where
      "trace (snd (process_each env agent aid agent_config rest (log_event (LoggerError (IndividualError x)) st1))) =
         trace (log_event (LoggerError (IndividualError x)) st1) @ evs'" by blast
    with Some p evs show ?thesis by (auto simp add: log_event_def split: prod.split)
  qed
qed

section \<open>The agent invocations of a dispatch\<close>

lemma agent_calls_append [simp]: "agent_calls (xs @ ys) = agent_calls xs @ agent_calls ys"
  by (simp add: agent_calls_def)


lemma agent_calls_Nil [simp]: "agent_calls [] = []"
  by (simp add: agent_calls_def)










lemma trace_remove_group [simp]: "trace (remove_group k st) = trace st"
  by (simp add: remove_group_def)








section \<open>Evaluation of the examples\<close>

lemmas example_defs =
  example_mixed_def example_single_def example_faulty_def example_start_def
  example_in_flight_def example_race_def example_pending_def example_rearm_def
  example_message_def example_agent_def example_reply_def example_env_def initial_state_def

lemmas receive_defs =
  receive_messages_def group_by_def group_add_def debounce_key_def py_or_def
  debounce_group_def store_group_def arm_group_def create_task_def cancel_def Let_def

lemmas dispatch_defs =
  delayed_process_def process_message_batch_def process_agent_messages_def
  process_message_def begin_message_def ensure_session_def invoke_agent_def save_reply_def
  deliver_def log_event_def remove_group_def basic_response_def

section \<open>Order of dispatch\<close>





section \<open>What the dispatcher changes in a message\<close>






section \<open>Removal from the store\<close>

lemma map_of_remove_group:
  "map_of (debounce_storage (remove_group key st)) k =
     (if k = key then None else map_of (debounce_storage st) k)"
  by (auto simp add: remove_group_def AList.delete_conv')




section \<open>Failure isolation\<close>

lemma emitsI: "trace st' = trace st @ pre @ evs @ post \<Longrightarrow> emits st st' evs"
  by (auto simp add: emits_def)

lemma emits_after: "trace st1 = trace st @ a \<Longrightarrow> emits st1 st2 evs \<Longrightarrow> emits st st2 evs"
  unfolding emits_def
proof -
  assume a: "trace st1 = trace st @ a" and "\<exists>pre post. trace st2 = trace st1 @ pre @ evs @ post"
  then obtain pre post where "trace st2 = trace st1 @ pre @ evs @ post" by blast
  with a have "trace st2 = trace st @ (a @ pre) @ evs @ post" by simp
  then show "\<exists>pre post. trace st2 = trace st @ pre @ evs @ post" by blast
qed

lemma emits_before: "emits st st1 evs \<Longrightarrow> trace st2 = trace st1 @ b \<Longrightarrow> emits st st2 evs"
  unfolding emits_def
proof -
  assume "\<exists>pre post. trace st1 = trace st @ pre @ evs @ post" and b: "trace st2 = trace st1 @ b"
  then obtain pre post where "trace st1 = trace st @ pre @ evs @ post" by blast
  with b have "trace st2 = trace st @ pre @ evs @ (post @ b)" by simp
  then show "\<exists>pre post. trace st2 = trace st @ pre @ evs @ post" by blast
qed

lemma py_or_idem: "py_or x (py_or x d) = py_or x d"
  by (simp add: py_or_def split: option.split)

lemma process_each_step:
  "snd (process_each env agent aid agent_config (msg # rest) st) =
     snd (process_each env agent aid agent_config rest
       (case fst (process_message env agent aid agent_config msg st) of
          None \<Rightarrow> snd (snd (process_message env agent aid agent_config msg st))
        | Some e \<Rightarrow> log_event (LoggerError (IndividualError e))
                     (snd (snd (process_message env agent aid agent_config msg st)))))"
  by (simp split: prod.split option.split)

lemma process_each_dispatches:
  assumes "m \<in> set msgs"
    and "\<And>sid. \<exists>r. process [mensagem m] (user_id m) sid (tenant_of m) = Inr r \<and> r_messages r \<noteq> []"
  shows "\<exists>sid r. process [mensagem m] (user_id m) sid (tenant_of m) = Inr r \<and>
            py_or (session_id m) sid = sid \<and>
            emits st (snd (process_each env (Some process) aid agent_config msgs st))
              (dispatched aid agent_config m sid r)"
  using assms(1)
proof (induction msgs arbitrary: st)
  case Nil
  then show ?case by simp
next
  case (Cons msg rest)
  let ?pm = "process_message env (Some process) aid agent_config msg st"
  let ?next = "case fst ?pm of None \<Rightarrow> snd (snd ?pm)
        | Some e \<Rightarrow> log_event (LoggerError (IndividualError e)) (snd (snd ?pm))"
  have step: "snd (process_each env (Some process) aid agent_config (msg # rest) st) =
      snd (process_each env (Some process) aid agent_config rest ?next)"
    by (rule process_each_step)
  obtain evs where evs: "trace (snd (snd ?pm)) = trace st @ evs"
    using process_message_trace by blast
  then obtain evs' where evs': "trace ?next = trace st @ evs'"
    by (cases "fst ?pm") (auto simp add: log_event_def)
  show ?case
  proof (cases "m = msg")
    case True
    let ?sid = "session_of env (uuid_counter st) m"
    from assms(2) obtain r where r: "process [mensagem m] (user_id m) ?sid (tenant_of m) = Inr r"
      "r_messages r \<noteq> []" by blast
    then have pm: "?pm = (None, m\<lparr>session_id := Some ?sid\<rparr>,
        st\<lparr>uuid_counter := next_counter (uuid_counter st) m,
           trace := trace st @ dispatched aid agent_config m ?sid r\<rparr>)"
      using True process_message_ok [of process m env st r aid agent_config] by simp
    then have "trace ?next = trace st @ [] @ dispatched aid agent_config m ?sid r @ []"
      by simp
    then have "emits st ?next (dispatched aid agent_config m ?sid r)"
      by (rule emitsI)
    moreover obtain b where
      "trace (snd (process_each env (Some process) aid agent_config rest ?next)) = trace ?next @ b"
      using process_each_trace by blast
    ultimately have "emits st (snd (process_each env (Some process) aid agent_config rest ?next))
        (dispatched aid agent_config m ?sid r)"
      by (rule emits_before)
    moreover have "py_or (session_id m) ?sid = ?sid"
      by (simp add: session_of_def py_or_idem)
    ultimately show ?thesis
      using r(1) step by auto
  next
    case False
    with Cons.prems have "m \<in> set rest" by simp
    from Cons.IH [OF this, of ?next] obtain sid r where
      sr: "process [mensagem m] (user_id m) sid (tenant_of m) = Inr r"
          "py_or (session_id m) sid = sid"
          "emits ?next (snd (process_each env (Some process) aid agent_config rest ?next))
             (dispatched aid agent_config m sid r)"
      by blast
    from evs' sr(3) have
      "emits st (snd (process_each env (Some process) aid agent_config rest ?next))
             (dispatched aid agent_config m sid r)"
      by (rule emits_after)
    with sr(1,2) step show ?thesis by auto
  qed
qed

lemma process_each_logs_failure:
  assumes "m \<in> set msgs"
    and "\<And>sid. process [mensagem m] (user_id m) sid (tenant_of m) = Inl e"
  shows "emits st (snd (process_each env (Some process) aid agent_config msgs st))
           [LoggerError (IndividualError e)]"
  using assms(1)
proof (induction msgs arbitrary: st)
  case Nil
  then show ?case by simp
next
  case (Cons msg rest)
  let ?pm = "process_message env (Some process) aid agent_config msg st"
  let ?next = "case fst ?pm of None \<Rightarrow> snd (snd ?pm)
        | Some e \<Rightarrow> log_event (LoggerError (IndividualError e)) (snd (snd ?pm))"
  have step: "snd (process_each env (Some process) aid agent_config (msg # rest) st) =
      snd (process_each env (Some process) aid agent_config rest ?next)"
    by (rule process_each_step)
  obtain evs where evs: "trace (snd (snd ?pm)) = trace st @ evs"
    using process_message_trace by blast
  then obtain evs' where evs': "trace ?next = trace st @ evs'"
    by (cases "fst ?pm") (auto simp add: log_event_def)
  show ?case
  proof (cases "m = msg")
    case True
    let ?sid = "session_of env (uuid_counter st) m"
    have "process [mensagem m] (user_id m) ?sid (tenant_of m) = Inl e" by (rule assms(2))
    then have "fst ?pm = Some e"
      using True process_message_raises [of process m env st e aid agent_config] by simp
    with evs have "trace ?next = trace st @ evs @ [LoggerError (IndividualError e)] @ []"
      by (simp add: log_event_def)
    then have "emits st ?next [LoggerError (IndividualError e)]"
      by (rule emitsI)
    moreover obtain b where
      "trace (snd (process_each env (Some process) aid agent_config rest ?next)) = trace ?next @ b"
      using process_each_trace by blast
    ultimately have "emits st (snd (process_each env (Some process) aid agent_config rest ?next))
        [LoggerError (IndividualError e)]"
      by (rule emits_before)
    with step show ?thesis by simp
  next
    case False
    with Cons.prems have "m \<in> set rest" by simp
    from Cons.IH [OF this, of ?next] have
      "emits ?next (snd (process_each env (Some process) aid agent_config rest ?next))
         [LoggerError (IndividualError e)]" .
    with evs' have
      "emits st (snd (process_each env (Some process) aid agent_config rest ?next))
         [LoggerError (IndividualError e)]"
      by (rule emits_after)
    with step show ?thesis by simp
  qed
qed


lemma process_agent_messages_trace:
  "\<exists>evs. trace (snd (process_agent_messages env aid msgs st)) = trace st @ evs"
  using process_each_trace
  by (auto simp add: process_agent_messages_def log_event_def split: option.split sum.split)

lemma process_groups_trace:
  "\<exists>evs. trace (snd (process_groups env gs st)) = trace st @ evs"
proof (induction gs arbitrary: st)
  case Nil
  then show ?case by simp
next
  case (Cons g gs)
  let ?st1 = "snd (process_agent_messages env (fst g) (snd g) st)"
  obtain a where a: "trace ?st1 = trace st @ a"
    using process_agent_messages_trace by blast
  obtain b where "trace (snd (process_groups env gs ?st1)) = trace ?st1 @ b"
    using Cons.IH by blast
  with a show ?case by (simp add: split_beta)
qed

lemma process_groups_emits:
  assumes "g \<in> set gs" and "agents_storage st = ags"
    and "\<And>s. agents_storage s = ags \<Longrightarrow>
           \<exists>x. P x \<and> emits s (snd (process_agent_messages env (fst g) (snd g) s)) (evs x)"
  shows "\<exists>x. P x \<and> emits st (snd (process_groups env gs st)) (evs x)"
  using assms(1,2)
proof (induction gs arbitrary: st)
  case Nil
  then show ?case by simp
next
  case (Cons h gs)
  let ?st1 = "snd (process_agent_messages env (fst h) (snd h) st)"
  have step: "snd (process_groups env (h # gs) st) = snd (process_groups env gs ?st1)"
    by (simp add: split_beta)
  show ?case
  proof (cases "g = h")
    case True
    from assms(3) [OF Cons.prems(2)] True obtain x where x: "P x" "emits st ?st1 (evs x)"
      by auto
    obtain b where "trace (snd (process_groups env gs ?st1)) = trace ?st1 @ b"
      using process_groups_trace by blast
    with x(2) have "emits st (snd (process_groups env gs ?st1)) (evs x)"
      by (rule emits_before)
    with x(1) show ?thesis unfolding step by blast
  next
    case False
    with Cons.prems(1) have g: "g \<in> set gs" by simp
    have "agents_storage ?st1 = ags"
      using same_store_process_agent_messages [of st env "fst h" "snd h"] Cons.prems(2)
      by (simp add: same_store_def)
    from Cons.IH [OF g this] obtain x where
      x: "P x" "emits ?st1 (snd (process_groups env gs ?st1)) (evs x)" by blast
    obtain a where "trace ?st1 = trace st @ a"
      using process_agent_messages_trace by blast
    from this x(2) have "emits st (snd (process_groups env gs ?st1)) (evs x)"
      by (rule emits_after)
    with x(1) show ?thesis unfolding step by blast
  qed
qed

lemma group_of_message:
  assumes "m \<in> set msgs"
  shows "(f m, filter (\<lambda>x. f x = f m) msgs) \<in> set (group_by f msgs)"
proof -
  from assms have "filter (\<lambda>x. f x = f m) msgs \<noteq> []"
    by (auto simp add: filter_empty_conv)
  then have "map_of (group_by f msgs) (f m) = Some (filter (\<lambda>x. f x = f m) msgs)"
    by (simp add: map_of_group_by)
  then show ?thesis by (rule map_of_SomeD)
qed

lemma delayed_process_emits:
  assumes "map_of (debounce_storage st) key = Some p" and "m \<in> set (messages p)"
    and "\<And>s msgs. agents_storage s = agents_storage st \<Longrightarrow> m \<in> set msgs \<Longrightarrow>
           \<exists>x. P x \<and> emits s (snd (process_agent_messages env (agent_id m) msgs s)) (evs x)"
  shows "\<exists>x. P x \<and> emits st (delayed_process env key st) (evs x)"
proof -
  let ?g = "(agent_id m, filter (\<lambda>x. agent_id x = agent_id m) (messages p))"
  have g: "?g \<in> set (group_by agent_id (messages p))"
    using assms(2) by (rule group_of_message)
  have "\<exists>x. P x \<and> emits st (snd (process_groups env (group_by agent_id (messages p)) st)) (evs x)"
  proof (rule process_groups_emits [OF g refl])
    fix s :: state
    assume "agents_storage s = agents_storage st"
    then show "\<exists>x. P x \<and> emits s (snd (process_agent_messages env (fst ?g) (snd ?g) s)) (evs x)"
      using assms(2,3) by simp
  qed
  then show ?thesis
    using assms(1) by (simp add: delayed_process_eq emits_def)
qed

text \<open>
  Claim C7 (per-message failure isolation). In a drained group, let the agent raise for
  the message \<open>mi\<close> and answer for the message \<open>mj\<close>. The flush logs the failure of \<open>mi\<close>
  and still dispatches \<open>mj\<close> in full: context, agent, knowledge store and webhook, with
  the agent's own reply and the message's session id.
\<close>

theorem failure_isolation:
  assumes "map_of (debounce_storage st) key = Some p"
    and "mi \<in> set (messages p)" and "mj \<in> set (messages p)"
    and "SimpleAgent env = Some new_agent"
    and "map_of (agents_storage st) (agent_id mi) = Some cfgi" and "new_agent cfgi = Inr processi"
    and "map_of (agents_storage st) (agent_id mj) = Some cfgj" and "new_agent cfgj = Inr processj"
    and "\<And>sid. processi [mensagem mi] (user_id mi) sid (tenant_of mi) = Inl e"
    and "\<And>sid. \<exists>r. processj [mensagem mj] (user_id mj) sid (tenant_of mj) = Inr r \<and> r_messages r \<noteq> []"
  shows "emits st (delayed_process env key st) [LoggerError (IndividualError e)] \<and>
         (\<exists>sid r. processj [mensagem mj] (user_id mj) sid (tenant_of mj) = Inr r \<and>
                  py_or (session_id mj) sid = sid \<and>
                  emits st (delayed_process env key st) (dispatched (agent_id mj) cfgj mj sid r))"
proof
  have "\<exists>x::unit. True \<and> emits st (delayed_process env key st) [LoggerError (IndividualError e)]"
  proof (rule delayed_process_emits [OF assms(1,2)])
    fix s :: state and msgs
    assume s: "agents_storage s = agents_storage st" and m: "mi \<in> set msgs"
    have "process_agent_messages env (agent_id mi) msgs s =
        process_each env (Some processi) (agent_id mi) cfgi msgs s"
      using assms(4,5,6) s by (simp add: process_agent_messages_def)
    then show "\<exists>x::unit. True \<and> emits s (snd (process_agent_messages env (agent_id mi) msgs s))
        [LoggerError (IndividualError e)]"
      using process_each_logs_failure [where m = mi and msgs = msgs and process = processi and e = e
          and st = s and env = env and aid = "agent_id mi" and agent_config = cfgi] m assms(9)
      by simp
  qed
  then show "emits st (delayed_process env key st) [LoggerError (IndividualError e)]" by simp
next
  let ?P = "\<lambda>x. processj [mensagem mj] (user_id mj) (fst x) (tenant_of mj) = Inr (snd x) \<and>
          py_or (session_id mj) (fst x) = fst x"
  have "\<exists>x. ?P x \<and> emits st (delayed_process env key st)
           (dispatched (agent_id mj) cfgj mj (fst x) (snd x))"
  proof (rule delayed_process_emits [OF assms(1,3)])
    fix s :: state and msgs
    assume s: "agents_storage s = agents_storage st" and m: "mj \<in> set msgs"
    have "process_agent_messages env (agent_id mj) msgs s =
        process_each env (Some processj) (agent_id mj) cfgj msgs s"
      using assms(4,7,8) s by (simp add: process_agent_messages_def)
    moreover obtain sid r where "processj [mensagem mj] (user_id mj) sid (tenant_of mj) = Inr r"
      "py_or (session_id mj) sid = sid"
      "emits s (snd (process_each env (Some processj) (agent_id mj) cfgj msgs s))
              (dispatched (agent_id mj) cfgj mj sid r)"
      using process_each_dispatches [where m = mj and msgs = msgs and process = processj
          and st = s and env = env and aid = "agent_id mj" and agent_config = cfgj] m assms(10)
      by blast
    ultimately have "?P (sid, r) \<and> emits s (snd (process_agent_messages env (agent_id mj) msgs s))
          (dispatched (agent_id mj) cfgj mj (fst (sid, r)) (snd (sid, r)))"
      by simp
    then show "\<exists>x. ?P x \<and> emits s (snd (process_agent_messages env (agent_id mj) msgs s))
          (dispatched (agent_id mj) cfgj mj (fst x) (snd x))"
      by (rule exI)
  qed
  then show "\<exists>sid r. processj [mensagem mj] (user_id mj) sid (tenant_of mj) = Inr r \<and>
                  py_or (session_id mj) sid = sid \<and>
                  emits st (delayed_process env key st) (dispatched (agent_id mj) cfgj mj sid r)"
    by auto
qed


theorem failure_isolation_witness:
  "emits example_faulty (delayed_process example_env ''bot_ana_s1'' example_faulty)
     [LoggerError (IndividualError (Exception ''LLM down''))] \<and>
   emits example_faulty (delayed_process example_env ''bot_ana_s1'' example_faulty)
     (dispatched ''bot'' (example_agent ''bot'' ''http://hook'')
        (example_message ''bot'' ''ana'' (Some ''s1'') ''tres'' 1000) ''s1''
        (example_reply ''bot'' ''ana'' ''s1''))"
proof -
  let ?m1 = "example_message ''bot'' ''ana'' (Some ''s1'') ''um'' 1000"
  let ?m2 = "example_message ''bot'' ''ana'' (Some ''s1'') ''boom'' 1000"
  let ?m3 = "example_message ''bot'' ''ana'' (Some ''s1'') ''tres'' 1000"
  let ?cfg = "example_agent ''bot'' ''http://hook''"
  let ?new = "\<lambda>cfg. Inr (\<lambda>msgs u sid tenant.
        if msgs = [''boom''] then Inl (Exception ''LLM down'')
        else Inr (example_reply (cfg_id cfg) u sid)) :: exn + agent_process"
  let ?process = "\<lambda>msgs u sid tenant.
        if msgs = [''boom''] then Inl (Exception ''LLM down'')
        else Inr (example_reply (cfg_id ?cfg) u sid) :: exn + response"
  have s: "map_of (debounce_storage example_faulty) ''bot_ana_s1'' =
       Some \<lparr>messages = [?m1, ?m2, ?m3], task = Some 0\<rparr>"
    by (simp add: example_defs receive_defs)
  have i: "?m2 \<in> set (messages \<lparr>messages = [?m1, ?m2, ?m3], task = Some 0\<rparr>)"
    and j: "?m3 \<in> set (messages \<lparr>messages = [?m1, ?m2, ?m3], task = Some 0\<rparr>)"
    by simp_all
  have a: "SimpleAgent example_env = Some ?new"
    by (simp add: example_env_def)
  have ci: "map_of (agents_storage example_faulty) (agent_id ?m2) = Some ?cfg"
    and cj: "map_of (agents_storage example_faulty) (agent_id ?m3) = Some ?cfg"
    by (simp_all add: example_defs receive_defs)
  have n: "?new ?cfg = Inr ?process" by simp
  have fails: "\<And>sid. ?process [mensagem ?m2] (user_id ?m2) sid (tenant_of ?m2) = Inl (Exception ''LLM down'')"
    by (simp add: example_message_def)
  have ok: "\<And>sid. \<exists>r. ?process [mensagem ?m3] (user_id ?m3) sid (tenant_of ?m3) = Inr r \<and> r_messages r \<noteq> []"
    by (simp add: example_message_def example_reply_def)
  note t = failure_isolation [OF s i j a ci n cj n fails ok]
  from t obtain sid r where
    r: "?process [mensagem ?m3] (user_id ?m3) sid (tenant_of ?m3) = Inr r"
    and sid: "py_or (session_id ?m3) sid = sid"
    and e: "emits example_faulty (delayed_process example_env ''bot_ana_s1'' example_faulty)
         (dispatched (agent_id ?m3) ?cfg ?m3 sid r)"
    by blast
  from sid have sid': "sid = ''s1''"
    by (simp add: py_or_def example_message_def)
  from r have r': "r = example_reply ''bot'' ''ana'' ''s1''"
    unfolding sid' by (simp add: example_message_def example_agent_def)
  have aid: "agent_id ?m3 = ''bot''" by (simp add: example_message_def)
  from e have "emits example_faulty (delayed_process example_env ''bot_ana_s1'' example_faulty)
     (dispatched ''bot'' ?cfg ?m3 ''s1'' (example_reply ''bot'' ''ana'' ''s1''))"
    unfolding sid' r' aid .
  with t [THEN conjunct1] show ?thesis by (rule conjI)
qed

section \<open>The agent never raises\<close>

lemma agent_returns: "\<exists>r. SimpleAgent_process self msgs uid sid tenant_id = Inr r"
  by (simp add: SimpleAgent_process_def split: sum.split)

lemma agent_graph_failure:
  "self_graph self (new_AgentState self msgs uid sid tenant_id) = Inl e \<Longrightarrow>
   SimpleAgent_process self msgs uid sid tenant_id = Inr (fallback_response self uid sid)"
  by (simp add: SimpleAgent_process_def)

lemma ids_node_process_message:
  "st_user_id (node_process_message py self state) = st_user_id state \<and>
   st_session_id (node_process_message py self state) = st_session_id state \<and>
   st_agent_id (node_process_message py self state) = st_agent_id state \<and>
   st_messages (node_process_message py self state) = st_messages state"
  by (simp add: node_process_message_def)

lemma ids_apply_skills:
  "st_user_id (apply_skills py self state) = st_user_id state \<and>
   st_session_id (apply_skills py self state) = st_session_id state \<and>
   st_agent_id (apply_skills py self state) = st_agent_id state \<and>
   st_messages (apply_skills py self state) = st_messages state"
  by (simp add: apply_skills_def Let_def)

lemma ids_generate_response:
  "st_user_id (generate_response self state) = st_user_id state \<and>
   st_session_id (generate_response self state) = st_session_id state \<and>
   st_agent_id (generate_response self state) = st_agent_id state \<and>
   st_messages (generate_response self state) \<noteq> []"
  by (simp add: generate_response_def Let_def split: sum.split option.split)

lemma generate_response_failure:
  "self_llm self (llm_input self state) = Inl e \<Longrightarrow>
   st_messages (generate_response self state) = [fallback_text]"
  by (simp add: generate_response_def)

lemma graph_ignored:
  "llm_input (self\<lparr>self_graph := g\<rparr>) state = llm_input self state"
  "generate_response (self\<lparr>self_graph := g\<rparr>) state = generate_response self state"
  "apply_skills py (self\<lparr>self_graph := g\<rparr>) state = apply_skills py self state"
  "node_process_message py (self\<lparr>self_graph := g\<rparr>) state = node_process_message py self state"
  by (simp_all add: llm_input_def system_prompt_def generate_response_def apply_skills_def
        node_process_message_def Let_def)

lemma new_simple_agent_graph:
  assumes "new_simple_agent py setup_llm agent_config = Inr self"
  shows "self_graph self state =
           Inr (generate_response self (apply_skills py self (node_process_message py self state))) \<and>
         self_agent_id self = cfg_id agent_config"
proof -
  from assms obtain llm where llm: "setup_llm agent_config = Inr llm"
    by (auto simp add: new_simple_agent_def split: sum.splits)
  define self0 where "self0 =
     \<lparr>self_agent_id = cfg_id agent_config, self_name = cfg_name agent_config,
                       self_instructions = cfg_instructions agent_config,
                       self_model = cfg_model agent_config, self_skills = cfg_skills agent_config,
                       self_llm = llm, self_graph = (\<lambda>state. Inl (Exception []))\<rparr>"
  from assms llm have self: "self = self0\<lparr>self_graph := build_graph py self0\<rparr>"
    by (simp add: new_simple_agent_def Let_def self0_def)
  have "self_graph self state = build_graph py self0 state"
    by (simp add: self)
  also have "\<dots> = Inr (generate_response self0 (apply_skills py self0 (node_process_message py self0 state)))"
    by (simp add: build_graph_def)
  also have "\<dots> = Inr (generate_response self (apply_skills py self (node_process_message py self state)))"
    unfolding self by (simp only: graph_ignored)
  finally have "self_graph self state =
     Inr (generate_response self (apply_skills py self (node_process_message py self state)))" .
  moreover have "self_agent_id self = cfg_id agent_config"
    by (simp add: self self0_def)
  ultimately show ?thesis by simp
qed

lemma built_agent_response:
  assumes "new_simple_agent py setup_llm agent_config = Inr self"
  shows "\<exists>r. SimpleAgent_process self msgs uid sid tenant_id = Inr r \<and> r_messages r \<noteq> [] \<and>
             r_session_id r = sid \<and> r_user_id r = uid \<and> r_agent_id r = cfg_id agent_config \<and>
             (\<forall>e. self_llm self (llm_input self (apply_skills py self
                     (node_process_message py self (new_AgentState self msgs uid sid tenant_id)))) = Inl e \<longrightarrow>
                  r_messages r = [fallback_text])"
proof -
  let ?s0 = "new_AgentState self msgs uid sid tenant_id"
  let ?s2 = "apply_skills py self (node_process_message py self ?s0)"
  have g: "self_graph self ?s0 = Inr (generate_response self ?s2)"
    and a: "self_agent_id self = cfg_id agent_config"
    using new_simple_agent_graph [OF assms] by simp_all
  have ids: "st_user_id ?s2 = uid" "st_session_id ?s2 = sid" "st_agent_id ?s2 = cfg_id agent_config"
    by (simp_all add: ids_apply_skills ids_node_process_message new_AgentState_def a)
  show ?thesis
    using ids ids_generate_response [of self ?s2] generate_response_failure [of self ?s2]
    by (auto simp add: SimpleAgent_process_def g)
qed


text \<open>
  Claim C8. \<open>SimpleAgent.process\<close> never raises. When the graph raises, it returns the
  fallback response: the fixed fallback text with the session id, user id and agent id of
  the call. For an agent built by the constructor, the response always echoes these ids
  and holds a message, which is the fixed fallback text when the LLM call raised; so the
  dispatcher's body for a message never ends with an exception and the loop continues.
\<close>

theorem agent_fallback:
  "(\<exists>r. SimpleAgent_process self msgs uid sid tenant_id = Inr r) \<and>
   (\<forall>e. self_graph self (new_AgentState self msgs uid sid tenant_id) = Inl e \<longrightarrow>
        SimpleAgent_process self msgs uid sid tenant_id = Inr (fallback_response self uid sid)) \<and>
   r_messages (fallback_response self uid sid) = [fallback_text] \<and>
   r_session_id (fallback_response self uid sid) = sid \<and>
   r_user_id (fallback_response self uid sid) = uid \<and>
   r_agent_id (fallback_response self uid sid) = self_agent_id self \<and>
   (new_simple_agent py setup_llm agent_config = Inr built \<longrightarrow>
      (\<exists>r. SimpleAgent_process built msgs uid sid tenant_id = Inr r \<and> r_messages r \<noteq> [] \<and>
           r_session_id r = sid \<and> r_user_id r = uid \<and> r_agent_id r = cfg_id agent_config \<and>
           (\<forall>e. self_llm built (llm_input built (apply_skills py built
                    (node_process_message py built (new_AgentState built msgs uid sid tenant_id)))) = Inl e \<longrightarrow>
                r_messages r = [fallback_text])) \<and>
      fst (process_message env (Some (SimpleAgent_process built)) aid agent_config msg st) = None)"
proof -
  have a: "\<exists>r. SimpleAgent_process self msgs uid sid tenant_id = Inr r"
    by (rule agent_returns)
  have b: "\<forall>e. self_graph self (new_AgentState self msgs uid sid tenant_id) = Inl e \<longrightarrow>
        SimpleAgent_process self msgs uid sid tenant_id = Inr (fallback_response self uid sid)"
    by (simp add: agent_graph_failure)
  have c: "r_messages (fallback_response self uid sid) = [fallback_text] \<and>
   r_session_id (fallback_response self uid sid) = sid \<and>
   r_user_id (fallback_response self uid sid) = uid \<and>
   r_agent_id (fallback_response self uid sid) = self_agent_id self"
    by (simp add: fallback_response_def)
  have d: "(\<exists>r. SimpleAgent_process built msgs uid sid tenant_id = Inr r \<and> r_messages r \<noteq> [] \<and>
           r_session_id r = sid \<and> r_user_id r = uid \<and> r_agent_id r = cfg_id agent_config \<and>
           (\<forall>e. self_llm built (llm_input built (apply_skills py built
                    (node_process_message py built (new_AgentState built msgs uid sid tenant_id)))) = Inl e \<longrightarrow>
                r_messages r = [fallback_text])) \<and>
      fst (process_message env (Some (SimpleAgent_process built)) aid agent_config msg st) = None"
    if built: "new_simple_agent py setup_llm agent_config = Inr built"
  proof
    show "\<exists>r. SimpleAgent_process built msgs uid sid tenant_id = Inr r \<and> r_messages r \<noteq> [] \<and>
           r_session_id r = sid \<and> r_user_id r = uid \<and> r_agent_id r = cfg_id agent_config \<and>
           (\<forall>e. self_llm built (llm_input built (apply_skills py built
                    (node_process_message py built (new_AgentState built msgs uid sid tenant_id)))) = Inl e \<longrightarrow>
                r_messages r = [fallback_text])"
      using built by (rule built_agent_response)
  next
    obtain r where r: "SimpleAgent_process built [mensagem msg] (user_id msg)
        (session_of env (uuid_counter st) msg) (tenant_of msg) = Inr r" "r_messages r \<noteq> []"
      using built_agent_response [OF built] by blast
    then show "fst (process_message env (Some (SimpleAgent_process built)) aid agent_config msg st) = None"
      by (simp add: process_message_ok)
  qed
  from a b c d show ?thesis by blast
qed

theorem agent_fallback_witness:
  "\<exists>self r. new_simple_agent example_builtins example_llm_down (example_agent ''bot'' []) = Inr self \<and>
     SimpleAgent_process self [''oi''] ''ana'' ''s1'' ''tenant_acme'' = Inr r \<and>
     r_messages r = [''Desculpe, ocorreu um erro ao processar sua mensagem.''] \<and>
     r_session_id r = ''s1'' \<and> r_user_id r = ''ana'' \<and> r_agent_id r = ''bot''"
proof -
  obtain self where self:
    "new_simple_agent example_builtins example_llm_down (example_agent ''bot'' []) = Inr self"
    by (simp add: new_simple_agent_def example_llm_down_def)
  then have llm: "self_llm self = (\<lambda>prompt. Inl (Exception ''timeout''))"
    by (auto simp add: new_simple_agent_def example_llm_down_def Let_def)
  note t = agent_fallback [where self = self and built = self and msgs = "[''oi'']"
      and uid = "''ana''" and sid = "''s1''" and tenant_id = "''tenant_acme''"
      and py = example_builtins and setup_llm = example_llm_down
      and agent_config = "example_agent ''bot'' []" and env = example_env and aid = "''bot''"
      and msg = "example_message ''bot'' ''ana'' (Some ''s1'') ''oi'' 1000" and st = "initial_state []"]
  note t' = t [THEN conjunct2, THEN conjunct2, THEN conjunct2, THEN conjunct2, THEN conjunct2,
      THEN conjunct2, THEN mp, OF self, THEN conjunct1]
  from t' obtain r where r: "SimpleAgent_process self [''oi''] ''ana'' ''s1'' ''tenant_acme'' = Inr r"
    "r_session_id r = ''s1''" "r_user_id r = ''ana''" "r_agent_id r = cfg_id (example_agent ''bot'' [])"
    "r_messages r = [fallback_text]"
    by (auto simp add: llm)
  from self r show ?thesis
    by (auto simp add: fallback_text_def example_agent_def)
qed

section \<open>A flush that runs to its end\<close>

lemma delayed_process_removes:
  "map_of (debounce_storage (delayed_process env key st)) key = None"
proof (cases "map_of (debounce_storage st) key")
  case None
  then show ?thesis by (simp add: delayed_process_eq)
next
  case (Some p)
  then show ?thesis
    by (simp add: delayed_process_eq map_of_remove_group)
qed

lemma second_flush_does_nothing:
  "delayed_process env key (delayed_process env key st) = delayed_process env key st"
  using delayed_process_removes [of env key st]
  by (simp add: delayed_process_eq [of env key "delayed_process env key st"])

lemma filled_arm_result: "filled st \<Longrightarrow> ms \<noteq> [] \<Longrightarrow> filled (arm_result st k ms)"
  by (simp add: filled_def arm_result_def list_all_update)

lemma filled_arm_all:
  "filled st \<Longrightarrow> list_all (\<lambda>g. snd g \<noteq> []) gs \<Longrightarrow> filled (arm_all st gs)"
  by (induction gs arbitrary: st) (simp_all add: filled_arm_result)

lemma filled_delayed_process: "filled st \<Longrightarrow> filled (delayed_process env key st)"
proof (cases "map_of (debounce_storage st) key")
  case None
  assume "filled st"
  with None show ?thesis by (simp add: delayed_process_eq)
next
  case (Some p)
  assume "filled st"
  moreover have "debounce_storage (snd (process_groups env (group_by agent_id (messages p)) st)) =
      debounce_storage st"
    using same_store_process_groups [of st env] by (simp add: same_store_def)
  ultimately show ?thesis
    using Some by (simp add: delayed_process_eq filled_def remove_group_def list_all_delete)
qed

lemma reachable_filled: "reachable env st \<Longrightarrow> filled st"
proof (induction rule: reachable.induct)
  case (start ags)
  show ?case by (simp add: initial_state_def filled_def)
next
  case (request st msgs)
  then have "armed st" using reachable_invariants by blast
  with request.IH show ?case
    by (simp add: receive_messages_armed filled_arm_all group_by_nonempty)
next
  case (timer st t)
  then show ?case
    using filled_delayed_process [of st env "task_key (tasks st ! t)"]
    by (simp add: run_task_def Let_def filled_def split: task_status.split)
next
  case (agents st ags)
  then show ?case by (simp add: filled_def)
qed

section \<open>A request that arrives during a flush\<close>

lemmas loop_defs =
  run_loop_def wake_def resume_def next_message_def start_message_def stored_message_def
  assign_message_def set_status_def

text \<open>
  In the state reached when the first flush has invoked the agent and awaits the webhook,
  the group is still in the store: this is the state the second request finds.
\<close>

theorem group_in_store_while_agent_invoked:
  "agent_calls (trace (run_loop example_env example_in_flight example_start)) =
     [(''bot'', [''um''], ''ana'')] \<and>
   stored_messages (run_loop example_env example_in_flight example_start) ''bot_ana_s1'' =
     [example_message ''bot'' ''ana'' (Some ''s1'') ''um'' 0]"
  by (simp add: example_defs receive_defs dispatch_defs loop_defs stored_messages_def
        agent_calls_def)

text \<open>
  Claim C1 (a group is flushed exactly once). The code does not meet it. A flush that runs
  to its end removes the key, and a later flush for the key does nothing; but a request
  that arrives while a flush awaits a collaborator finds the key still in the store,
  cancels the flush in flight and appends to the group, and the flush it arms dispatches
  the first message a second time.
\<close>

theorem rearm_during_flush_dispatches_twice:
  "agent_calls (trace (run_loop example_env example_race example_start)) =
     [(''bot'', [''um''], ''ana''), (''bot'', [''um''], ''ana''), (''bot'', [''dois''], ''ana'')] \<and>
   debounce_storage (run_loop example_env example_race example_start) = []"
  by (simp add: example_defs receive_defs dispatch_defs loop_defs stored_messages_def
        agent_calls_def)

end
